theory Spec2Isabelle
  imports Main
begin

section \<open>The namespace debt controller (controllers/account/controllers/namespace\_controller.go)\<close>

subsection \<open>Constants of package api/v1\<close>

text \<open>
  The controller reads seven string constants of the package \<^verbatim>\<open>api/v1\<close>, whose
  declarations are not part of the controller's file. They are a parameter of every function
  below, so that each result holds for whatever values the package gives them.
\<close>

record v1 =
  DebtNamespaceAnnoStatusKey :: string
  NormalDebtNamespaceAnnoStatus :: string
  SuspendDebtNamespaceAnnoStatus :: string
  ResumeDebtNamespaceAnnoStatus :: string
  DebtSchedulerName :: string
  PreviousSchedulerName :: string
  PodPhaseSuspended :: string

subsection \<open>Objects\<close>

text \<open>
  A Go map is either nil or a finite table: \<open>None\<close> is the nil map. Reading a nil map
  finds nothing, deleting from it does nothing, and the code allocates a table before it
  writes (\<^verbatim>\<open>if clone.Annotations == nil\<close>).
\<close>

type_synonym gomap = "(string \<rightharpoonup> string) option"

definition lookup :: "gomap \<Rightarrow> string \<Rightarrow> string option" where
  "lookup m k = (case m of None \<Rightarrow> None | Some t \<Rightarrow> t k)"

definition delete :: "gomap \<Rightarrow> string \<Rightarrow> gomap" where
  "delete m k = (case m of None \<Rightarrow> None | Some t \<Rightarrow> Some (t(k := None)))"

text \<open>
  The write \<^verbatim>\<open>m[k] = v\<close>. Go panics on a write to a nil map; the two writes of this
  file come after a check that the map is not nil, so the first case is never evaluated
  (lemmas \<open>suspendClone_writes_table\<close> and \<open>lookup_Some_table\<close>).
\<close>

definition assign :: "gomap \<Rightarrow> string \<Rightarrow> string \<Rightarrow> gomap" where
  "assign m k v = (case m of None \<Rightarrow> None | Some t \<Rightarrow> Some (t(k \<mapsto> v)))"

record ObjectMeta =
  Name :: string
  Namespace :: string
  ResourceVersion :: string
  OwnerReferences :: "string list"
  Annotations :: gomap

record PodSpec =
  NodeName :: string
  SchedulerName :: string

record PodStatus =
  Phase :: string
  Conditions :: "string list"
  Message :: string
  Reason :: string
  HostIP :: string
  PodIP :: string

text \<open>The zero value \<^verbatim>\<open>corev1.PodStatus{}\<close>.\<close>

definition PodStatus_zero :: PodStatus where
  "PodStatus_zero =
     \<lparr>Phase = [], Conditions = [], Message = [], Reason = [], HostIP = [], PodIP = []\<rparr>"

record Pod = ObjectMeta +
  Spec :: PodSpec
  Status :: PodStatus

record NamespaceObj = ObjectMeta +
  Finalizers :: "string list"

record ResourceQuota = ObjectMeta +
  Hard :: "string \<rightharpoonup> int"

subsection \<open>Errors and results\<close>

text \<open>
  \<open>Errorf_w\<close> is \<^verbatim>\<open>fmt.Errorf\<close> with the verb \<^verbatim>\<open>%w\<close> (the cause stays reachable),
  \<open>Errorf_v\<close> the one with \<^verbatim>\<open>%v\<close> (only the text of the cause is kept). Both carry the
  format string and the pod name given to it.
\<close>

datatype error =
    NotFound
  | AlreadyExists
  | ApiFailure string
  | Errorf_w string string error
  | Errorf_v string string error

fun IsNotFound :: "error \<Rightarrow> bool" where
  "IsNotFound NotFound = True"
| "IsNotFound (Errorf_w f a e) = IsNotFound e"
| "IsNotFound e = False"

definition IgnoreNotFound :: "error option \<Rightarrow> error option" where
  "IgnoreNotFound err =
     (case err of None \<Rightarrow> None | Some e \<Rightarrow> if IsNotFound e then None else Some e)"

text \<open>
  What a call of a controller function does: it returns nil, returns an error, or never
  returns (the wait of \<open>recreatePod\<close> on a channel that stays open and silent).
\<close>

datatype outcome = ReturnNil | ReturnErr error | Blocks

subsection \<open>Watch events\<close>

datatype EventType = Added | Modified | Deleted | Bookmark | Error

datatype Object = PodObject Pod | OtherObject

record Event =
  Type :: EventType
  Object :: Object

text \<open>
  The result channel of a watcher: the events it delivers, in order, after which it is
  either closed or stays open without another event. A channel that delivers events for
  ever without the awaited one keeps the reader as busy as \<open>Silent\<close> does.
\<close>

datatype chan = Closed | Silent | Ev Event chan

subsection \<open>The cluster behind \<^verbatim>\<open>r.Client\<close>\<close>

datatype Call =
    GetNamespace string
  | UpdateNamespace NamespaceObj
  | ListPods string
  | DeletePod Pod
  | CreatePod Pod
  | WatchPods
  | StopWatch
  | Received Event
  | GetQuota string string
  | CreateQuota ResourceQuota
  | UpdateQuota ResourceQuota
  | DeleteQuota ResourceQuota

text \<open>
  The state the controller works against. \<open>faults\<close> is the failure the platform answers
  each coming request with (one entry per request, \<open>None\<close> or no entry: the request is
  served); \<open>feeds\<close> holds the channels the coming watches hand out; \<open>reportedPhase\<close> is
  the lifecycle phase the platform gives a pod created through the API (it discards the
  status of a create request); \<open>calls\<close> records every request issued and every event
  received, in order.
\<close>

record World =
  namespaces :: "NamespaceObj list"
  pods :: "Pod list"
  quotas :: "ResourceQuota list"
  reportedPhase :: string
  faults :: "error option list"
  feeds :: "chan list"
  calls :: "Call list"

definition request :: "Call \<Rightarrow> World \<Rightarrow> error option \<times> World" where
  "request c w =
     (case faults w of
        [] \<Rightarrow> (None, w\<lparr>calls := calls w @ [c]\<rparr>)
      | f # fs \<Rightarrow> (f, w\<lparr>faults := fs, calls := calls w @ [c]\<rparr>))"

definition sameKey :: "'a ObjectMeta_scheme \<Rightarrow> 'b ObjectMeta_scheme \<Rightarrow> bool" where
  "sameKey a b \<longleftrightarrow> Namespace a = Namespace b \<and> Name a = Name b"

definition clientGetNamespace :: "string \<Rightarrow> World \<Rightarrow> (error + NamespaceObj) \<times> World" where
  "clientGetNamespace n w =
     (case request (GetNamespace n) w of
        (Some e, w1) \<Rightarrow> (Inl e, w1)
      | (None, w1) \<Rightarrow>
          (case find (\<lambda>ns. Name ns = n) (namespaces w1) of
             None \<Rightarrow> (Inl NotFound, w1)
           | Some ns \<Rightarrow> (Inr ns, w1)))"

definition clientUpdateNamespace :: "NamespaceObj \<Rightarrow> World \<Rightarrow> error option \<times> World" where
  "clientUpdateNamespace ns w =
     (case request (UpdateNamespace ns) w of
        (Some e, w1) \<Rightarrow> (Some e, w1)
      | (None, w1) \<Rightarrow>
          if \<exists>x \<in> set (namespaces w1). Name x = Name ns
          then (None, w1\<lparr>namespaces :=
                  map (\<lambda>x. if Name x = Name ns then ns else x) (namespaces w1)\<rparr>)
          else (Some NotFound, w1))"

definition clientListPods :: "string \<Rightarrow> World \<Rightarrow> (error + Pod list) \<times> World" where
  "clientListPods n w =
     (case request (ListPods n) w of
        (Some e, w1) \<Rightarrow> (Inl e, w1)
      | (None, w1) \<Rightarrow> (Inr (filter (\<lambda>p. Namespace p = n) (pods w1)), w1))"

definition clientDeletePod :: "Pod \<Rightarrow> World \<Rightarrow> error option \<times> World" where
  "clientDeletePod pod w =
     (case request (DeletePod pod) w of
        (Some e, w1) \<Rightarrow> (Some e, w1)
      | (None, w1) \<Rightarrow>
          if \<exists>p \<in> set (pods w1). sameKey p pod
          then (None, w1\<lparr>pods := filter (\<lambda>p. \<not> sameKey p pod) (pods w1)\<rparr>)
          else (Some NotFound, w1))"

text \<open>What the platform stores for a pod submitted to create.\<close>

definition admit :: "World \<Rightarrow> Pod \<Rightarrow> Pod" where
  "admit w pod = pod\<lparr>Status := PodStatus_zero\<lparr>Phase := reportedPhase w\<rparr>\<rparr>"

definition clientCreatePod :: "Pod \<Rightarrow> World \<Rightarrow> error option \<times> World" where
  "clientCreatePod pod w =
     (case request (CreatePod pod) w of
        (Some e, w1) \<Rightarrow> (Some e, w1)
      | (None, w1) \<Rightarrow>
          if ResourceVersion pod \<noteq> []
          then (Some (ApiFailure ''resourceVersion should not be set on objects to be created''), w1)
          else if \<exists>p \<in> set (pods w1). sameKey p pod then (Some AlreadyExists, w1)
          else (None, w1\<lparr>pods := pods w1 @ [admit w1 pod]\<rparr>))"

definition clientWatch :: "World \<Rightarrow> (error + chan) \<times> World" where
  "clientWatch w =
     (case request WatchPods w of
        (Some e, w1) \<Rightarrow> (Inl e, w1)
      | (None, w1) \<Rightarrow>
          (case feeds w1 of
             [] \<Rightarrow> (Inr Closed, w1)
           | ch # chs \<Rightarrow> (Inr ch, w1\<lparr>feeds := chs\<rparr>)))"

definition watcherStop :: "World \<Rightarrow> World" where
  "watcherStop w = w\<lparr>calls := calls w @ [StopWatch]\<rparr>"

definition receive :: "Event \<Rightarrow> World \<Rightarrow> World" where
  "receive event w = w\<lparr>calls := calls w @ [Received event]\<rparr>"

definition clientGetQuota :: "string \<Rightarrow> string \<Rightarrow> World \<Rightarrow> (error + ResourceQuota) \<times> World" where
  "clientGetQuota n k w =
     (case request (GetQuota n k) w of
        (Some e, w1) \<Rightarrow> (Inl e, w1)
      | (None, w1) \<Rightarrow>
          (case find (\<lambda>q. Namespace q = n \<and> Name q = k) (quotas w1) of
             None \<Rightarrow> (Inl NotFound, w1)
           | Some q \<Rightarrow> (Inr q, w1)))"

definition clientCreateQuota :: "ResourceQuota \<Rightarrow> World \<Rightarrow> error option \<times> World" where
  "clientCreateQuota q w =
     (case request (CreateQuota q) w of
        (Some e, w1) \<Rightarrow> (Some e, w1)
      | (None, w1) \<Rightarrow>
          if \<exists>x \<in> set (quotas w1). sameKey x q then (Some AlreadyExists, w1)
          else (None, w1\<lparr>quotas := quotas w1 @ [q]\<rparr>))"

definition clientUpdateQuota :: "ResourceQuota \<Rightarrow> World \<Rightarrow> error option \<times> World" where
  "clientUpdateQuota q w =
     (case request (UpdateQuota q) w of
        (Some e, w1) \<Rightarrow> (Some e, w1)
      | (None, w1) \<Rightarrow>
          if \<exists>x \<in> set (quotas w1). sameKey x q
          then (None, w1\<lparr>quotas := map (\<lambda>x. if sameKey x q then q else x) (quotas w1)\<rparr>)
          else (Some NotFound, w1))"

definition clientDeleteQuota :: "ResourceQuota \<Rightarrow> World \<Rightarrow> error option \<times> World" where
  "clientDeleteQuota q w =
     (case request (DeleteQuota q) w of
        (Some e, w1) \<Rightarrow> (Some e, w1)
      | (None, w1) \<Rightarrow>
          if \<exists>x \<in> set (quotas w1). sameKey x q
          then (None, w1\<lparr>quotas := filter (\<lambda>x. \<not> sameKey x q) (quotas w1)\<rparr>)
          else (Some NotFound, w1))"

text \<open>
  \<^verbatim>\<open>ctrl.CreateOrUpdate\<close> of controller-runtime: read the object; when it is not there,
  apply the mutation to the given object and create it; when it is there, apply the mutation
  to the object read and update only if that changed it.
\<close>

definition CreateOrUpdate ::
  "ResourceQuota \<Rightarrow> (ResourceQuota \<Rightarrow> error option \<times> ResourceQuota) \<Rightarrow> World \<Rightarrow> error option \<times> World"
where
  "CreateOrUpdate obj f w =
     (case clientGetQuota (Namespace obj) (Name obj) w of
        (Inl e, w1) \<Rightarrow>
          if \<not> IsNotFound e then (Some e, w1)
          else (case f obj of
                  (Some e', obj') \<Rightarrow> (Some e', w1)
                | (None, obj') \<Rightarrow> clientCreateQuota obj' w1)
      | (Inr existing, w1) \<Rightarrow>
          (case f existing of
             (Some e', obj') \<Rightarrow> (Some e', w1)
           | (None, obj') \<Rightarrow>
               if obj' = existing then (None, w1) else clientUpdateQuota obj' w1))"

subsection \<open>The quota gate\<close>

definition GetLimit0ResourceQuota :: "string \<Rightarrow> ResourceQuota" where
  "GetLimit0ResourceQuota namespace =
     \<lparr>Name = ''debt-limit0'', Namespace = namespace, ResourceVersion = [],
      OwnerReferences = [], Annotations = None,
      Hard = [''limits.cpu'' \<mapsto> 0, ''limits.memory'' \<mapsto> 0, ''requests.storage'' \<mapsto> 0]\<rparr>"

definition toOutcome :: "error option \<Rightarrow> outcome" where
  "toOutcome err = (case err of None \<Rightarrow> ReturnNil | Some e \<Rightarrow> ReturnErr e)"

definition limitResourceQuotaCreate :: "string \<Rightarrow> World \<Rightarrow> outcome \<times> World" where
  "limitResourceQuotaCreate namespace w =
     (let limitQuota = GetLimit0ResourceQuota namespace in
      case CreateOrUpdate limitQuota (\<lambda>obj. (None, obj)) w of
        (err, w1) \<Rightarrow> (toOutcome err, w1))"

definition limitResourceQuotaDelete :: "string \<Rightarrow> World \<Rightarrow> outcome \<times> World" where
  "limitResourceQuotaDelete namespace w =
     (let limitQuota = GetLimit0ResourceQuota namespace in
      case clientDeleteQuota limitQuota w of
        (err, w1) \<Rightarrow> (toOutcome (IgnoreNotFound err), w1))"

subsection \<open>recreatePod\<close>

text \<open>
  The loop \<^verbatim>\<open>for event := range ch\<close>. It ends when the channel is closed, and the
  function then returns nil; the first deletion event that carries a pod of the old pod's
  name triggers the create.
\<close>

fun awaitDeleted :: "Pod \<Rightarrow> Pod \<Rightarrow> chan \<Rightarrow> World \<Rightarrow> outcome \<times> World" where
  "awaitDeleted oldPod newPod Closed w = (ReturnNil, w)"
| "awaitDeleted oldPod newPod Silent w = (Blocks, w)"
| "awaitDeleted oldPod newPod (Ev event ch) w =
     (let w1 = receive event w in
      if Type event = Deleted then
        (case Object event of
           PodObject val \<Rightarrow>
             if Name val = Name oldPod then
               (case clientCreatePod newPod w1 of
                  (Some err, w2) \<Rightarrow>
                    (ReturnErr (Errorf_w ''failed to recreate pod %s: %w'' (Name newPod) err), w2)
                | (None, w2) \<Rightarrow> (ReturnNil, watcherStop w2))
             else awaitDeleted oldPod newPod ch w1
         | OtherObject \<Rightarrow> awaitDeleted oldPod newPod ch w1)
      else awaitDeleted oldPod newPod ch w1)"

definition recreatePod :: "Pod \<Rightarrow> Pod \<Rightarrow> World \<Rightarrow> outcome \<times> World" where
  "recreatePod oldPod newPod w =
     (case clientWatch w of
        (Inl err, w1) \<Rightarrow>
          (ReturnErr (Errorf_w ''failed to start watch stream for pod %s: %w'' (Name oldPod) err), w1)
      | (Inr ch, w1) \<Rightarrow>
          (case clientDeletePod oldPod w1 of
             (Some err, w2) \<Rightarrow>
               (ReturnErr (Errorf_w ''failed to delete pod %s: %w'' (Name oldPod) err), w2)
           | (None, w2) \<Rightarrow> awaitDeleted oldPod newPod ch w2))"

subsection \<open>The suspend stages\<close>

text \<open>The clone \<open>suspendOrphanPod\<close> builds from a pod (lines 178 to 195).\<close>

definition suspendClone :: "v1 \<Rightarrow> Pod \<Rightarrow> Pod" where
  "suspendClone c pod =
     (let clone = pod;
          clone = clone\<lparr>ResourceVersion := []\<rparr>;
          clone = clone\<lparr>Spec := (Spec clone)\<lparr>NodeName := []\<rparr>\<rparr>;
          clone = clone\<lparr>Status := PodStatus_zero\<rparr>;
          clone = clone\<lparr>Spec := (Spec clone)\<lparr>SchedulerName := DebtSchedulerName c\<rparr>\<rparr>;
          clone = (if Annotations clone = None
                   then clone\<lparr>Annotations := Some Map.empty\<rparr> else clone)
      in clone\<lparr>Annotations :=
           assign (Annotations clone) (PreviousSchedulerName c) (SchedulerName (Spec pod))\<rparr>)"

fun suspendOrphanPod_items :: "v1 \<Rightarrow> Pod list \<Rightarrow> World \<Rightarrow> outcome \<times> World" where
  "suspendOrphanPod_items c [] w = (ReturnNil, w)"
| "suspendOrphanPod_items c (pod # items) w =
     (if SchedulerName (Spec pod) = DebtSchedulerName c \<or> length (OwnerReferences pod) > 0
      then suspendOrphanPod_items c items w
      else
        (case recreatePod pod (suspendClone c pod) w of
           (ReturnNil, w1) \<Rightarrow> suspendOrphanPod_items c items w1
         | (ReturnErr err, w1) \<Rightarrow>
             (ReturnErr (Errorf_w ''recrete unowned pod `%s` failed: %w'' (Name pod) err), w1)
         | (Blocks, w1) \<Rightarrow> (Blocks, w1)))"

definition suspendOrphanPod :: "v1 \<Rightarrow> string \<Rightarrow> World \<Rightarrow> outcome \<times> World" where
  "suspendOrphanPod c namespace w =
     (case clientListPods namespace w of
        (Inl err, w1) \<Rightarrow> (ReturnErr err, w1)
      | (Inr items, w1) \<Rightarrow> suspendOrphanPod_items c items w1)"

fun deleteControlledPod_items :: "v1 \<Rightarrow> Pod list \<Rightarrow> World \<Rightarrow> outcome \<times> World" where
  "deleteControlledPod_items c [] w = (ReturnNil, w)"
| "deleteControlledPod_items c (pod # items) w =
     (if SchedulerName (Spec pod) = DebtSchedulerName c \<or> length (OwnerReferences pod) = 0
      then deleteControlledPod_items c items w
      else
        (case clientDeletePod pod w of
           (Some err, w1) \<Rightarrow> (ReturnErr err, w1)
         | (None, w1) \<Rightarrow> deleteControlledPod_items c items w1))"

definition deleteControlledPod :: "v1 \<Rightarrow> string \<Rightarrow> World \<Rightarrow> outcome \<times> World" where
  "deleteControlledPod c namespace w =
     (case clientListPods namespace w of
        (Inl err, w1) \<Rightarrow> (ReturnErr err, w1)
      | (Inr items, w1) \<Rightarrow> deleteControlledPod_items c items w1)"

subsection \<open>The resume stage\<close>

text \<open>The clone \<open>resumePod\<close> builds from a pod (lines 240 to 256).\<close>

definition resumeClone :: "v1 \<Rightarrow> Pod \<Rightarrow> Pod" where
  "resumeClone c pod =
     (let clone = pod;
          clone = clone\<lparr>ResourceVersion := []\<rparr>;
          clone = clone\<lparr>Spec := (Spec clone)\<lparr>NodeName := []\<rparr>\<rparr>;
          clone = clone\<lparr>Status := PodStatus_zero\<rparr>
      in case lookup (Annotations clone) (PreviousSchedulerName c) of
           Some scheduler \<Rightarrow>
             clone\<lparr>Spec := (Spec clone)\<lparr>SchedulerName := scheduler\<rparr>,
                   Annotations := delete (Annotations clone) (PreviousSchedulerName c)\<rparr>
         | None \<Rightarrow> clone\<lparr>Spec := (Spec clone)\<lparr>SchedulerName := []\<rparr>\<rparr>)"

fun resumePod_items :: "v1 \<Rightarrow> Pod list \<Rightarrow> World \<Rightarrow> outcome \<times> World" where
  "resumePod_items c [] w = (ReturnNil, w)"
| "resumePod_items c (pod # items) w =
     (if Phase (Status pod) \<noteq> PodPhaseSuspended c \<or> SchedulerName (Spec pod) \<noteq> DebtSchedulerName c
      then resumePod_items c items w
      else if length (OwnerReferences pod) > 0 then
        (case clientDeletePod pod w of
           (Some err, w1) \<Rightarrow>
             (ReturnErr (Errorf_v ''delete pod %s failed: %v'' (Name pod) err), w1)
         | (None, w1) \<Rightarrow> resumePod_items c items w1)
      else
        (case recreatePod pod (resumeClone c pod) w of
           (ReturnNil, w1) \<Rightarrow> resumePod_items c items w1
         | (ReturnErr err, w1) \<Rightarrow>
             (ReturnErr (Errorf_v ''recrete unowned pod %s failed: %v'' (Name pod) err), w1)
         | (Blocks, w1) \<Rightarrow> (Blocks, w1)))"

definition resumePod :: "v1 \<Rightarrow> string \<Rightarrow> World \<Rightarrow> outcome \<times> World" where
  "resumePod c namespace w =
     (case clientListPods namespace w of
        (Inl err, w1) \<Rightarrow> (ReturnErr err, w1)
      | (Inr items, w1) \<Rightarrow> resumePod_items c items w1)"

subsection \<open>The pipelines and Reconcile\<close>

text \<open>The loop \<^verbatim>\<open>for _, fn := range pipelines\<close> of both pipelines.\<close>

fun runPipelines :: "(string \<Rightarrow> World \<Rightarrow> outcome \<times> World) list \<Rightarrow> string \<Rightarrow> World \<Rightarrow> outcome \<times> World" where
  "runPipelines [] namespace w = (ReturnNil, w)"
| "runPipelines (fn # fns) namespace w =
     (case fn namespace w of
        (ReturnNil, w1) \<Rightarrow> runPipelines fns namespace w1
      | (ReturnErr err, w1) \<Rightarrow> (ReturnErr err, w1)
      | (Blocks, w1) \<Rightarrow> (Blocks, w1))"

definition SuspendUserResource :: "v1 \<Rightarrow> string \<Rightarrow> World \<Rightarrow> outcome \<times> World" where
  "SuspendUserResource c namespace w =
     runPipelines [suspendOrphanPod c, limitResourceQuotaCreate, deleteControlledPod c] namespace w"

definition ResumeUserResource :: "v1 \<Rightarrow> string \<Rightarrow> World \<Rightarrow> outcome \<times> World" where
  "ResumeUserResource c namespace w =
     runPipelines [limitResourceQuotaDelete, resumePod c] namespace w"

text \<open>
  The write \<^verbatim>\<open>ns.Annotations[key] = Normal\<close> followed by \<^verbatim>\<open>r.Client.Update\<close>. It is
  reached only after the key was read from the table, which is therefore not nil.
\<close>

definition writeNormal :: "v1 \<Rightarrow> NamespaceObj \<Rightarrow> World \<Rightarrow> outcome \<times> World" where
  "writeNormal c ns w =
     (let ns' = ns\<lparr>Annotations :=
            assign (Annotations ns) (DebtNamespaceAnnoStatusKey c) (NormalDebtNamespaceAnnoStatus c)\<rparr>
      in case clientUpdateNamespace ns' w of
           (err, w1) \<Rightarrow> (toOutcome err, w1))"

definition Reconcile :: "v1 \<Rightarrow> string \<Rightarrow> World \<Rightarrow> outcome \<times> World" where
  "Reconcile c name w =
     (case clientGetNamespace name w of
        (Inl err, w1) \<Rightarrow> (toOutcome (IgnoreNotFound (Some err)), w1)
      | (Inr ns, w1) \<Rightarrow>
          (case lookup (Annotations ns) (DebtNamespaceAnnoStatusKey c) of
             None \<Rightarrow> (ReturnNil, w1)
           | Some debtStatus \<Rightarrow>
               if debtStatus = SuspendDebtNamespaceAnnoStatus c then
                 SuspendUserResource c name w1
               else if debtStatus = ResumeDebtNamespaceAnnoStatus c then
                 (case ResumeUserResource c name w1 of
                    (ReturnNil, w2) \<Rightarrow> writeNormal c ns w2
                  | (ReturnErr err, w2) \<Rightarrow> (ReturnErr err, w2)
                  | (Blocks, w2) \<Rightarrow> (Blocks, w2))
               else if debtStatus = NormalDebtNamespaceAnnoStatus c then (ReturnNil, w1)
               else writeNormal c ns w1))"

subsection \<open>Notions used in the statements\<close>

text \<open>The requests issued and events received between two states, in order.\<close>

definition newCalls :: "World \<Rightarrow> World \<Rightarrow> Call list" where
  "newCalls w w' = drop (length (calls w)) (calls w')"

text \<open>A deletion notification whose subject is a pod of the old pod's name.\<close>

definition announces :: "Pod \<Rightarrow> Event \<Rightarrow> bool" where
  "announces oldPod event \<longleftrightarrow>
     Type event = Deleted \<and>
     (case Object event of PodObject val \<Rightarrow> Name val = Name oldPod | OtherObject \<Rightarrow> False)"

definition deletionOf :: "Pod \<Rightarrow> Event" where
  "deletionOf pod = \<lparr>Type = Deleted, Object = PodObject pod\<rparr>"

text \<open>A channel that delivers the given events before it goes on as \<open>ch\<close>.\<close>

fun prepend :: "Event list \<Rightarrow> chan \<Rightarrow> chan" where
  "prepend [] ch = ch"
| "prepend (e # es) ch = Ev e (prepend es ch)"

text \<open>The channel delivers the deletion of the pod at some point.\<close>

fun delivers :: "Pod \<Rightarrow> chan \<Rightarrow> bool" where
  "delivers pod Closed = False"
| "delivers pod Silent = False"
| "delivers pod (Ev event ch) = (announces pod event \<or> delivers pod ch)"

text \<open>
  The coming watches confirm the deletions of the given pods, one watch per pod, in order.
\<close>

fun confirming :: "Pod list \<Rightarrow> chan list \<Rightarrow> bool" where
  "confirming [] chs = True"
| "confirming (pod # ps) [] = False"
| "confirming (pod # ps) (ch # chs) = (delivers pod ch \<and> confirming ps chs)"

text \<open>The pods the resume stage acts on: the guard of its loop (line 231), negated.\<close>

definition parked :: "v1 \<Rightarrow> Pod \<Rightarrow> bool" where
  "parked c pod \<longleftrightarrow>
     Phase (Status pod) = PodPhaseSuspended c \<and> SchedulerName (Spec pod) = DebtSchedulerName c"

definition key :: "Pod \<Rightarrow> string \<times> string" where
  "key pod = (Namespace pod, Name pod)"

text \<open>
  What a stage's loop does with one pod: nothing, a delete, or a recreate with the given
  clone. The three loops of the controller are instances, read off their guards.
\<close>

datatype disposition = Skip | Remove | Replace Pod

definition suspendOrphanPod_disposition :: "v1 \<Rightarrow> Pod \<Rightarrow> disposition" where
  "suspendOrphanPod_disposition c pod =
     (if SchedulerName (Spec pod) = DebtSchedulerName c \<or> length (OwnerReferences pod) > 0
      then Skip else Replace (suspendClone c pod))"

definition deleteControlledPod_disposition :: "v1 \<Rightarrow> Pod \<Rightarrow> disposition" where
  "deleteControlledPod_disposition c pod =
     (if SchedulerName (Spec pod) = DebtSchedulerName c \<or> length (OwnerReferences pod) = 0
      then Skip else Remove)"

definition resumePod_disposition :: "v1 \<Rightarrow> Pod \<Rightarrow> disposition" where
  "resumePod_disposition c pod =
     (if Phase (Status pod) \<noteq> PodPhaseSuspended c \<or> SchedulerName (Spec pod) \<noteq> DebtSchedulerName c
      then Skip
      else if length (OwnerReferences pod) > 0 then Remove
      else Replace (resumeClone c pod))"

fun replaced :: "(Pod \<Rightarrow> disposition) \<Rightarrow> Pod list \<Rightarrow> Pod list" where
  "replaced d [] = []"
| "replaced d (pod # ps) = (case d pod of Replace clone \<Rightarrow> pod # replaced d ps | _ \<Rightarrow> replaced d ps)"

fun clones :: "(Pod \<Rightarrow> disposition) \<Rightarrow> Pod list \<Rightarrow> Pod list" where
  "clones d [] = []"
| "clones d (pod # ps) = (case d pod of Replace clone \<Rightarrow> clone # clones d ps | _ \<Rightarrow> clones d ps)"

text \<open>
  The pods the first and the third suspend stage act on: the guards of their loops (lines
  174 and 210), negated.
\<close>

definition orphan :: "v1 \<Rightarrow> Pod \<Rightarrow> bool" where
  "orphan c pod \<longleftrightarrow> SchedulerName (Spec pod) \<noteq> DebtSchedulerName c \<and> OwnerReferences pod = []"

definition controlled :: "v1 \<Rightarrow> Pod \<Rightarrow> bool" where
  "controlled c pod \<longleftrightarrow> SchedulerName (Spec pod) \<noteq> DebtSchedulerName c \<and> OwnerReferences pod \<noteq> []"

text \<open>The pods a loop leaves in the cluster: those it does not list or passes over.\<close>

definition kept :: "(Pod \<Rightarrow> disposition) \<Rightarrow> Pod list \<Rightarrow> Pod \<Rightarrow> bool" where
  "kept d items p \<longleftrightarrow> p \<notin> set items \<or> d p = Skip"

text \<open>The pods created and the pods deleted by a sequence of calls, in order.\<close>

fun createdPods :: "Call list \<Rightarrow> Pod list" where
  "createdPods [] = []"
| "createdPods (CreatePod p # cs) = p # createdPods cs"
| "createdPods (x # cs) = createdPods cs"

fun deletedPods :: "Call list \<Rightarrow> Pod list" where
  "deletedPods [] = []"
| "deletedPods (DeletePod p # cs) = p # deletedPods cs"
| "deletedPods (x # cs) = deletedPods cs"

text \<open>
  The run of a loop in which every step returns nil: the state it ends in, or \<open>None\<close>
  when a step fails or blocks.
\<close>

fun perform :: "(Pod \<Rightarrow> disposition) \<Rightarrow> Pod list \<Rightarrow> World \<Rightarrow> World option" where
  "perform d [] w = Some w"
| "perform d (pod # ps) w =
     (case d pod of
        Skip \<Rightarrow> perform d ps w
      | Remove \<Rightarrow>
          (case clientDeletePod pod w of (None, w1) \<Rightarrow> perform d ps w1 | (Some e, w1) \<Rightarrow> None)
      | Replace clone \<Rightarrow>
          (case recreatePod pod clone w of (ReturnNil, w1) \<Rightarrow> perform d ps w1 | (r, w1) \<Rightarrow> None))"

text \<open>
  A step that leaves the namespace objects and the platform's phase alone and issues only
  calls of the given kind.
\<close>

definition extends :: "(Call \<Rightarrow> bool) \<Rightarrow> World \<Rightarrow> World \<Rightarrow> bool" where
  "extends P w w' \<longleftrightarrow>
     namespaces w' = namespaces w \<and> reportedPhase w' = reportedPhase w \<and>
     (\<exists>cs. calls w' = calls w @ cs \<and> list_all P cs)"

text \<open>
  The calls of a stage that works on pods: lists, watches, received events, deletes of
  pods in \<open>D\<close> and creates of pods in \<open>C\<close>.
\<close>

definition podCall :: "Pod set \<Rightarrow> Pod set \<Rightarrow> Call \<Rightarrow> bool" where
  "podCall D C x =
     (case x of
        ListPods n \<Rightarrow> True | WatchPods \<Rightarrow> True | StopWatch \<Rightarrow> True | Received e \<Rightarrow> True
      | DeletePod p \<Rightarrow> p \<in> D | CreatePod p \<Rightarrow> p \<in> C | _ \<Rightarrow> False)"

definition quotaCall :: "Call \<Rightarrow> bool" where
  "quotaCall x =
     (case x of
        GetQuota n k \<Rightarrow> True | CreateQuota q \<Rightarrow> True | UpdateQuota q \<Rightarrow> True
      | DeleteQuota q \<Rightarrow> True | _ \<Rightarrow> False)"

definition isUpdateNamespace :: "Call \<Rightarrow> bool" where
  "isUpdateNamespace x = (case x of UpdateNamespace ns \<Rightarrow> True | _ \<Rightarrow> False)"

text \<open>
  Every create in a sequence of calls comes after the delete of a pod of \<open>S\<close>, with
  nothing but received events in between, and submits the clone \<open>f\<close> builds from the
  pod deleted. \<open>tied\<close> says so of the calls issued between two states.
\<close>

definition follows :: "(Pod \<Rightarrow> Pod) \<Rightarrow> Pod set \<Rightarrow> Call list \<Rightarrow> bool" where
  "follows f S cs \<longleftrightarrow>
     (\<forall>pre p post. cs = pre @ CreatePod p # post \<longrightarrow>
        (\<exists>pre' old evs. pre = pre' @ DeletePod old # map Received evs \<and> old \<in> S \<and> p = f old))"

definition tied :: "(Pod \<Rightarrow> Pod) \<Rightarrow> Pod set \<Rightarrow> World \<Rightarrow> World \<Rightarrow> bool" where
  "tied f S w w' \<longleftrightarrow> (\<exists>cs. calls w' = calls w @ cs \<and> follows f S cs)"

text \<open>The step of the billing system between two reconciliations: it sets the status.\<close>

definition setDebtStatus :: "v1 \<Rightarrow> string \<Rightarrow> string \<Rightarrow> World \<Rightarrow> World" where
  "setDebtStatus c name v w =
     w\<lparr>namespaces := map (\<lambda>ns. if Name ns = name
          then ns\<lparr>Annotations := Some ((case Annotations ns of None \<Rightarrow> Map.empty | Some t \<Rightarrow> t)
                 (DebtNamespaceAnnoStatusKey c \<mapsto> v))\<rparr>
          else ns) (namespaces w)\<rparr>"

subsection \<open>A small cluster\<close>

definition exampleV1 :: v1 where
  "exampleV1 =
     \<lparr>DebtNamespaceAnnoStatusKey = ''debt.sealos/status'',
      NormalDebtNamespaceAnnoStatus = ''Normal'',
      SuspendDebtNamespaceAnnoStatus = ''Suspend'',
      ResumeDebtNamespaceAnnoStatus = ''Resume'',
      DebtSchedulerName = ''debt-scheduler'',
      PreviousSchedulerName = ''previous-scheduler'',
      PodPhaseSuspended = ''Suspended''\<rparr>"

definition podA :: Pod where
  "podA =
     \<lparr>Name = ''a'', Namespace = ''ns-1'', ResourceVersion = ''41'', OwnerReferences = [],
      Annotations = None,
      Spec = \<lparr>NodeName = ''node-x'', SchedulerName = ''default''\<rparr>,
      Status = PodStatus_zero\<lparr>Phase := ''Running'', HostIP := ''10.0.0.7''\<rparr>\<rparr>"

definition podB :: Pod where
  "podB =
     \<lparr>Name = ''b'', Namespace = ''ns-1'', ResourceVersion = ''42'', OwnerReferences = [''web''],
      Annotations = None,
      Spec = \<lparr>NodeName = ''node-x'', SchedulerName = ''default''\<rparr>,
      Status = PodStatus_zero\<lparr>Phase := ''Running''\<rparr>\<rparr>"

definition namespace1 :: "string \<Rightarrow> NamespaceObj" where
  "namespace1 v =
     \<lparr>Name = ''ns-1'', Namespace = [], ResourceVersion = ''7'', OwnerReferences = [],
      Annotations = Some [''debt.sealos/status'' \<mapsto> v], Finalizers = [''kubernetes'']\<rparr>"

text \<open>
  The namespace \<open>ns-1\<close> with status \<open>v\<close> and the pods \<open>a\<close> (unmanaged) and \<open>b\<close>
  (managed), on a platform that serves every request, reports created pods in the given
  phase and hands out the given channels.
\<close>

definition cluster1 :: "string \<Rightarrow> string \<Rightarrow> chan list \<Rightarrow> World" where
  "cluster1 v ph chs =
     \<lparr>namespaces = [namespace1 v], pods = [podA, podB], quotas = [], reportedPhase = ph,
      faults = [], feeds = chs, calls = []\<rparr>"

section \<open>Properties\<close>

text \<open>The definitions a run on a given cluster unfolds.\<close>

lemmas eval_defs =
  recreatePod_def clientWatch_def request_def cluster1_def clientDeletePod_def podA_def podB_def
  sameKey_def Reconcile_def clientGetNamespace_def namespace1_def lookup_def exampleV1_def
  SuspendUserResource_def suspendOrphanPod_def clientListPods_def deletionOf_def receive_def
  clientCreatePod_def suspendClone_def resumeClone_def Let_def admit_def watcherStop_def
  limitResourceQuotaCreate_def CreateOrUpdate_def GetLimit0ResourceQuota_def clientGetQuota_def
  clientCreateQuota_def toOutcome_def deleteControlledPod_def assign_def delete_def
  PodStatus_zero_def newCalls_def ResumeUserResource_def resumePod_def limitResourceQuotaDelete_def
  clientDeleteQuota_def IgnoreNotFound_def writeNormal_def clientUpdateNamespace_def
  setDebtStatus_def announces_def

subsection \<open>Requests and the record of calls\<close>

lemma request_calls: "request c w = (r, w') \<Longrightarrow> calls w' = calls w @ [c]"
  by (auto simp: request_def split: list.splits)

lemma clientCreatePod_calls: "clientCreatePod p w = (r, w') \<Longrightarrow> calls w' = calls w @ [CreatePod p]"
  by (auto simp: clientCreatePod_def split: prod.splits option.splits if_splits dest: request_calls)

lemma clientDeletePod_calls: "clientDeletePod p w = (r, w') \<Longrightarrow> calls w' = calls w @ [DeletePod p]"
  by (auto simp: clientDeletePod_def split: prod.splits option.splits if_splits dest: request_calls)

lemma clientWatch_calls: "clientWatch w = (r, w') \<Longrightarrow> calls w' = calls w @ [WatchPods]"
  by (auto simp: clientWatch_def split: prod.splits option.splits if_splits list.splits dest: request_calls)

lemma awaitDeleted_skip:
  "\<not> announces oldPod event \<Longrightarrow>
   awaitDeleted oldPod newPod (Ev event ch) w = awaitDeleted oldPod newPod ch (receive event w)"
  by (auto simp: announces_def Let_def split: Object.splits)

lemma awaitDeleted_calls:
  "awaitDeleted oldPod newPod ch w = (r, w') \<Longrightarrow>
   \<exists>evs tl. calls w' = calls w @ map Received evs @ tl \<and> (\<forall>e \<in> set evs. \<not> announces oldPod e) \<and>
     (tl = [] \<or> (\<exists>ev. announces oldPod ev \<and>
        (tl = [Received ev, CreatePod newPod] \<or> tl = [Received ev, CreatePod newPod, StopWatch])))"
proof (induction ch arbitrary: w)
  case Closed
  then show ?case by (intro exI[of _ "[]"]) simp
next
  case Silent
  then show ?case by (intro exI[of _ "[]"]) simp
next
  case (Ev event ch)
  show ?case
  proof (cases "announces oldPod event")
    case False
    with Ev.prems have "awaitDeleted oldPod newPod ch (receive event w) = (r, w')"
      using awaitDeleted_skip[OF False, of newPod ch w] by simp
    from Ev.IH[OF this] obtain evs tl where
      h: "calls w' = calls (receive event w) @ map Received evs @ tl"
         "\<forall>e \<in> set evs. \<not> announces oldPod e"
         "tl = [] \<or> (\<exists>ev. announces oldPod ev \<and>
        (tl = [Received ev, CreatePod newPod] \<or> tl = [Received ev, CreatePod newPod, StopWatch]))"
      by blast
    show ?thesis
      apply (rule exI[of _ "event # evs"], rule exI[of _ tl])
      using h False by (simp add: receive_def)
  next
    case True
    then obtain val where v: "Type event = Deleted" "Object event = PodObject val" "Name val = Name oldPod"
      by (auto simp: announces_def split: Object.splits)
    obtain e w2 where c: "clientCreatePod newPod (receive event w) = (e, w2)" by force
    from clientCreatePod_calls[OF c] have cw2: "calls w2 = calls w @ [Received event, CreatePod newPod]"
      by (simp add: receive_def)
    show ?thesis
      apply (rule exI[of _ "[]"])
      using Ev.prems v c cw2 True
      by (cases e) (auto simp: Let_def watcherStop_def)
  qed
qed

lemma recreatePod_calls:
  assumes "recreatePod oldPod newPod w = (r, w')"
  shows "newCalls w w' = [WatchPods] \<or>
    (\<exists>evs tl. newCalls w w' = WatchPods # DeletePod oldPod # map Received evs @ tl \<and>
       (\<forall>e \<in> set evs. \<not> announces oldPod e) \<and>
       (tl = [] \<or> (\<exists>ev. announces oldPod ev \<and>
        (tl = [Received ev, CreatePod newPod] \<or> tl = [Received ev, CreatePod newPod, StopWatch]))))"
proof -
  obtain a w1 where a: "clientWatch w = (a, w1)" by force
  note c1 = clientWatch_calls[OF a]
  show ?thesis
  proof (cases a)
    case (Inl e)
    with assms a c1 show ?thesis by (simp add: recreatePod_def newCalls_def)
  next
    case (Inr ch)
    obtain b w2 where b: "clientDeletePod oldPod w1 = (b, w2)" by force
    note c2 = clientDeletePod_calls[OF b]
    show ?thesis
    proof (cases b)
      case (Some e)
      with assms a b c1 c2 Inr have "newCalls w w' = WatchPods # DeletePod oldPod # map Received [] @ []"
        by (simp add: recreatePod_def newCalls_def)
      then show ?thesis by (intro disjI2 exI[of _ "[]"]) simp
    next
      case None
      with assms a b Inr have "awaitDeleted oldPod newPod ch w2 = (r, w')"
        by (simp add: recreatePod_def)
      from awaitDeleted_calls[OF this] obtain evs tl where
        h: "calls w' = calls w2 @ map Received evs @ tl"
           "\<forall>e \<in> set evs. \<not> announces oldPod e"
           "tl = [] \<or> (\<exists>ev. announces oldPod ev \<and>
              (tl = [Received ev, CreatePod newPod] \<or> tl = [Received ev, CreatePod newPod, StopWatch]))"
        by blast
      from h(1) c1 c2
      have "newCalls w w' = WatchPods # DeletePod oldPod # map Received evs @ tl"
        by (simp add: newCalls_def)
      with h(2,3) show ?thesis by blast
    qed
  qed
qed


lemma split_unique:
  "xs @ a # ys = us @ b # vs \<Longrightarrow> P a \<Longrightarrow> \<forall>x \<in> set us. \<not> P x \<Longrightarrow> \<forall>x \<in> set vs. \<not> P x \<Longrightarrow>
   xs = us \<and> a = b \<and> ys = vs"
proof (induction us arbitrary: xs)
  case Nil
  then show ?case by (cases xs) auto
next
  case (Cons u us)
  then show ?case by (cases xs) auto
qed

lemma awaitDeleted_prepend:
  "\<forall>e \<in> set evs. \<not> announces oldPod e \<Longrightarrow>
   awaitDeleted oldPod newPod (prepend evs ch) w =
   awaitDeleted oldPod newPod ch (foldl (\<lambda>w e. receive e w) w evs)"
  by (induction evs arbitrary: w) (simp_all add: awaitDeleted_skip del: awaitDeleted.simps)

subsection \<open>The order of watch, delete and create\<close>

text \<open>
  Claim C1. In every run of \<open>recreatePod\<close>, whatever it returns: a delete is issued only
  as the second call, right after the watch was opened, and it is the delete of the old pod;
  a create is issued only for the new pod, and everything before it is the watch, the delete
  of the old pod and events received from the channel, the last of which is a deletion
  notification carrying a pod of the old pod's name, while none of the events before it is
  one. Events that are not deletions, or are deletions of pods of another name, are passed
  over: the wait goes on with the rest of the channel and only their receipt is recorded.
\<close>

theorem recreatePod_create_follows_deletion:
  assumes "recreatePod oldPod newPod w = (r, w')"
  shows "(\<forall>pre q post. newCalls w w' = pre @ DeletePod q # post \<longrightarrow> pre = [WatchPods] \<and> q = oldPod) \<and>
         (\<forall>pre p post. newCalls w w' = pre @ CreatePod p # post \<longrightarrow>
            p = newPod \<and>
            (\<exists>evs ev. pre = WatchPods # DeletePod oldPod # map Received evs @ [Received ev] \<and>
               announces oldPod ev \<and> (\<forall>e \<in> set evs. \<not> announces oldPod e))) \<and>
         (\<forall>evs ch w0.
            (\<forall>e \<in> set evs. Type e \<noteq> Deleted \<or> (\<forall>val. Object e = PodObject val \<longrightarrow> Name val \<noteq> Name oldPod)) \<longrightarrow>
            awaitDeleted oldPod newPod (prepend evs ch) w0 =
            awaitDeleted oldPod newPod ch (foldl (\<lambda>w e. receive e w) w0 evs))"
proof (intro conjI allI impI)
  fix pre q post
  assume eq: "newCalls w w' = pre @ DeletePod q # post"
  let ?P = "\<lambda>c. case c of DeletePod _ \<Rightarrow> True | _ \<Rightarrow> False"
  from recreatePod_calls[OF assms] consider
      (a) "newCalls w w' = [WatchPods]"
    | (b) evs tl where "newCalls w w' = WatchPods # DeletePod oldPod # map Received evs @ tl"
        "tl = [] \<or> (\<exists>ev. tl = [Received ev, CreatePod newPod] \<or> tl = [Received ev, CreatePod newPod, StopWatch])"
    by blast
  then have "pre = [WatchPods] \<and> DeletePod q = DeletePod oldPod \<and> post = post"
  proof cases
    case a
    with eq have "DeletePod q \<in> set [WatchPods]" by (metis in_set_conv_decomp)
    then show ?thesis by simp
  next
    case b
    have "pre @ DeletePod q # post = [WatchPods] @ DeletePod oldPod # (map Received evs @ tl)"
      using eq b(1) by simp
    from split_unique[OF this, of ?P] b(2)
    show ?thesis by auto
  qed
  then show "pre = [WatchPods]" and "q = oldPod" by simp_all
next
  fix pre p post
  assume eq: "newCalls w w' = pre @ CreatePod p # post"
  let ?P = "\<lambda>c. case c of CreatePod _ \<Rightarrow> True | _ \<Rightarrow> False"
  have mem: "CreatePod p \<in> set (newCalls w w')" using eq by simp
  from recreatePod_calls[OF assms] consider
      (a) "newCalls w w' = [WatchPods]"
    | (b) evs where "newCalls w w' = WatchPods # DeletePod oldPod # map Received evs"
    | (c) evs ev post' where
        "newCalls w w' = (WatchPods # DeletePod oldPod # map Received evs @ [Received ev]) @ CreatePod newPod # post'"
        "post' = [] \<or> post' = [StopWatch]" "announces oldPod ev" "\<forall>e \<in> set evs. \<not> announces oldPod e"
    by auto
  then have "p = newPod \<and>
            (\<exists>evs ev. pre = WatchPods # DeletePod oldPod # map Received evs @ [Received ev] \<and>
               announces oldPod ev \<and> (\<forall>e \<in> set evs. \<not> announces oldPod e))"
  proof cases
    case a
    with mem show ?thesis by simp
  next
    case b
    with mem show ?thesis by auto
  next
    case c
    have "pre @ CreatePod p # post =
       (WatchPods # DeletePod oldPod # map Received evs @ [Received ev]) @ CreatePod newPod # post'"
      using eq c(1) by simp
    from split_unique[OF this, of ?P] c(2)
    have "pre = WatchPods # DeletePod oldPod # map Received evs @ [Received ev] \<and> p = newPod"
      by auto
    with c(3,4) show ?thesis by blast
  qed
  then show "p = newPod" and "\<exists>evs ev. pre = WatchPods # DeletePod oldPod # map Received evs @ [Received ev] \<and>
               announces oldPod ev \<and> (\<forall>e \<in> set evs. \<not> announces oldPod e)" by simp_all
next
  fix evs :: "Event list" and ch w0
  assume "\<forall>e \<in> set evs. Type e \<noteq> Deleted \<or> (\<forall>val. Object e = PodObject val \<longrightarrow> Name val \<noteq> Name oldPod)"
  then have "\<forall>e \<in> set evs. \<not> announces oldPod e"
    by (auto simp: announces_def split: Object.splits)
  then show "awaitDeleted oldPod newPod (prepend evs ch) w0 =
            awaitDeleted oldPod newPod ch (foldl (\<lambda>w e. receive e w) w0 evs)"
    by (rule awaitDeleted_prepend)
qed


theorem recreatePod_create_follows_deletion_witness:
  "fst (recreatePod podA (suspendClone exampleV1 podA)
     (cluster1 ''Suspend'' [] [Ev \<lparr>Type = Added, Object = PodObject podB\<rparr>
        (Ev (deletionOf podB) (Ev (deletionOf podA) Silent))])) = ReturnNil \<and>
   newCalls (cluster1 ''Suspend'' [] [Ev \<lparr>Type = Added, Object = PodObject podB\<rparr>
        (Ev (deletionOf podB) (Ev (deletionOf podA) Silent))])
     (snd (recreatePod podA (suspendClone exampleV1 podA)
       (cluster1 ''Suspend'' [] [Ev \<lparr>Type = Added, Object = PodObject podB\<rparr>
        (Ev (deletionOf podB) (Ev (deletionOf podA) Silent))]))) =
     [WatchPods, DeletePod podA, Received \<lparr>Type = Added, Object = PodObject podB\<rparr>,
      Received (deletionOf podB), Received (deletionOf podA)] @
     CreatePod (suspendClone exampleV1 podA) # [StopWatch] \<and>
   announces podA (deletionOf podA) \<and>
   \<not> announces podA (deletionOf podB) \<and>
   \<not> announces podA \<lparr>Type = Added, Object = PodObject podB\<rparr> \<and>
   (\<exists>evs ev. [WatchPods, DeletePod podA, Received \<lparr>Type = Added, Object = PodObject podB\<rparr>,
      Received (deletionOf podB), Received (deletionOf podA)] =
      WatchPods # DeletePod podA # map Received evs @ [Received ev] \<and> announces podA ev)"
proof -
  let ?w = "cluster1 ''Suspend'' [] [Ev \<lparr>Type = Added, Object = PodObject podB\<rparr>
        (Ev (deletionOf podB) (Ev (deletionOf podA) Silent))]"
  let ?new = "suspendClone exampleV1 podA"
  let ?w' = "snd (recreatePod podA ?new ?w)"
  have run: "recreatePod podA ?new ?w = (fst (recreatePod podA ?new ?w), ?w')" by simp
  have r: "fst (recreatePod podA ?new ?w) = ReturnNil"
    by (simp add: eval_defs)
  have cs: "newCalls ?w ?w' =
     [WatchPods, DeletePod podA, Received \<lparr>Type = Added, Object = PodObject podB\<rparr>,
      Received (deletionOf podB), Received (deletionOf podA)] @ CreatePod ?new # [StopWatch]"
    by (simp add: eval_defs)
  have an: "announces podA (deletionOf podA)" "\<not> announces podA (deletionOf podB)"
    "\<not> announces podA \<lparr>Type = Added, Object = PodObject podB\<rparr>"
    by (simp_all add: announces_def deletionOf_def podA_def podB_def)
  from recreatePod_create_follows_deletion[OF run] cs
  have "\<exists>evs ev. [WatchPods, DeletePod podA, Received \<lparr>Type = Added, Object = PodObject podB\<rparr>,
      Received (deletionOf podB), Received (deletionOf podA)] =
      WatchPods # DeletePod podA # map Received evs @ [Received ev] \<and> announces podA ev"
    by blast
  with r cs an show ?thesis by blast
qed

subsection \<open>What a stage leaves alone and which calls it issues\<close>

lemma extends_refl: "extends P w w"
  by (simp add: extends_def)

lemma extends_trans: "extends P w w1 \<Longrightarrow> extends P w1 w2 \<Longrightarrow> extends P w w2"
  by (auto simp: extends_def)

lemma extends_mono: "extends P w w' \<Longrightarrow> (\<And>x. P x \<Longrightarrow> Q x) \<Longrightarrow> extends Q w w'"
  by (auto simp: extends_def list_all_iff)

lemma request_extends: "request x w = (r, w') \<Longrightarrow> P x \<Longrightarrow> extends P w w'"
  by (auto simp: request_def extends_def split: list.splits)

lemma clientListPods_extends: "clientListPods n w = (r, w') \<Longrightarrow> extends (podCall D C) w w'"
  by (auto simp: clientListPods_def podCall_def split: prod.splits option.splits
      dest!: request_extends[where P = "podCall D C"])

lemma clientDeletePod_extends:
  "clientDeletePod p w = (r, w') \<Longrightarrow> p \<in> D \<Longrightarrow> extends (podCall D C) w w'"
  by (auto simp: clientDeletePod_def podCall_def extends_def split: prod.splits option.splits if_splits
      dest!: request_extends[where P = "podCall D C"])

lemma clientCreatePod_extends:
  "clientCreatePod p w = (r, w') \<Longrightarrow> p \<in> C \<Longrightarrow> extends (podCall D C) w w'"
  by (auto simp: clientCreatePod_def podCall_def extends_def split: prod.splits option.splits if_splits
      dest!: request_extends[where P = "podCall D C"])

lemma clientWatch_extends: "clientWatch w = (r, w') \<Longrightarrow> extends (podCall D C) w w'"
  by (auto simp: clientWatch_def podCall_def extends_def split: prod.splits option.splits list.splits
      dest!: request_extends[where P = "podCall D C"])

lemma receive_extends: "extends (podCall D C) w (receive e w)"
  by (simp add: receive_def extends_def podCall_def)

lemma watcherStop_extends: "extends (podCall D C) w (watcherStop w)"
  by (simp add: watcherStop_def extends_def podCall_def)

lemma awaitDeleted_extends:
  "awaitDeleted oldPod newPod ch w = (r, w') \<Longrightarrow> newPod \<in> C \<Longrightarrow> extends (podCall D C) w w'"
proof (induction ch arbitrary: w)
  case Closed
  then show ?case by (simp add: extends_refl)
next
  case Silent
  then show ?case by (simp add: extends_refl)
next
  case (Ev event ch)
  have r: "extends (podCall D C) w (receive event w)" by (rule receive_extends)
  show ?case
  proof (cases "Type event = Deleted \<and> (\<exists>val. Object event = PodObject val \<and> Name val = Name oldPod)")
    case False
    then have "awaitDeleted oldPod newPod ch (receive event w) = (r, w')"
      using Ev.prems(1) by (auto simp: Let_def split: Object.splits if_splits)
    from Ev.IH[OF this Ev.prems(2)] r show ?thesis by (rule extends_trans[rotated])
  next
    case True
    obtain e w2 where c: "clientCreatePod newPod (receive event w) = (e, w2)" by force
    have "extends (podCall D C) (receive event w) w2"
      using clientCreatePod_extends[OF c Ev.prems(2)] .
    moreover have "w' = w2 \<or> w' = watcherStop w2"
      using Ev.prems(1) True c by (auto simp: Let_def split: option.splits)
    ultimately show ?thesis
      using r watcherStop_extends[of D C w2] by (auto intro: extends_trans)
  qed
qed

lemma recreatePod_extends:
  assumes "recreatePod oldPod newPod w = (r, w')" and "oldPod \<in> D" and "newPod \<in> C"
  shows "extends (podCall D C) w w'"
proof -
  obtain a w1 where a: "clientWatch w = (a, w1)" by force
  note e1 = clientWatch_extends[OF a, of D C]
  show ?thesis
  proof (cases a)
    case (Inl e)
    with assms(1) a have "w' = w1" by (simp add: recreatePod_def)
    with e1 show ?thesis by simp
  next
    case (Inr ch)
    obtain b w2 where b: "clientDeletePod oldPod w1 = (b, w2)" by force
    note e2 = extends_trans[OF e1 clientDeletePod_extends[OF b assms(2), of C]]
    show ?thesis
    proof (cases b)
      case (Some e)
      with assms(1) a b Inr have "w' = w2" by (simp add: recreatePod_def)
      with e2 show ?thesis by simp
    next
      case None
      with assms(1) a b Inr have "awaitDeleted oldPod newPod ch w2 = (r, w')"
        by (simp add: recreatePod_def)
      from extends_trans[OF e2 awaitDeleted_extends[OF this assms(3), of D]] show ?thesis .
    qed
  qed
qed

lemma podCall_mono: "podCall D C x \<Longrightarrow> D \<subseteq> D' \<Longrightarrow> C \<subseteq> C' \<Longrightarrow> podCall D' C' x"
  by (auto simp: podCall_def split: Call.splits)

lemma suspendOrphanPod_items_extends:
  "suspendOrphanPod_items c items w = (r, w') \<Longrightarrow>
   extends (podCall (set items) (suspendClone c ` set items)) w w'"
proof (induction items arbitrary: w)
  case Nil
  then show ?case by (simp add: extends_refl)
next
  case (Cons pod items)
  let ?D = "set (pod # items)" and ?C = "suspendClone c ` set (pod # items)"
  have up: "\<And>u v. extends (podCall (set items) (suspendClone c ` set items)) u v \<Longrightarrow>
     extends (podCall ?D ?C) u v"
    by (erule extends_mono) (auto elim: podCall_mono)
  show ?case
  proof (cases "SchedulerName (Spec pod) = DebtSchedulerName c \<or> length (OwnerReferences pod) > 0")
    case True
    with Cons.prems have "suspendOrphanPod_items c items w = (r, w')" by simp
    from up[OF Cons.IH[OF this]] show ?thesis .
  next
    case False
    obtain r1 w1 where rc: "recreatePod pod (suspendClone c pod) w = (r1, w1)" by force
    have e1: "extends (podCall ?D ?C) w w1"
      by (rule recreatePod_extends[OF rc]) simp_all
    show ?thesis
    proof (cases r1)
      case ReturnNil
      with Cons.prems False rc have "suspendOrphanPod_items c items w1 = (r, w')" by simp
      from up[OF Cons.IH[OF this]] e1 show ?thesis by (rule extends_trans[rotated])
    next
      case (ReturnErr e)
      with Cons.prems False rc have "w' = w1" by auto
      with e1 show ?thesis by simp
    next
      case Blocks
      with Cons.prems False rc have "w' = w1" by auto
      with e1 show ?thesis by simp
    qed
  qed
qed


lemma deleteControlledPod_items_extends:
  "deleteControlledPod_items c items w = (r, w') \<Longrightarrow> extends (podCall (set items) {}) w w'"
proof (induction items arbitrary: w)
  case Nil
  then show ?case by (simp add: extends_refl)
next
  case (Cons pod items)
  let ?D = "set (pod # items)"
  have up: "\<And>u v. extends (podCall (set items) {}) u v \<Longrightarrow> extends (podCall ?D {}) u v"
    by (erule extends_mono) (auto elim: podCall_mono)
  show ?case
  proof (cases "SchedulerName (Spec pod) = DebtSchedulerName c \<or> length (OwnerReferences pod) = 0")
    case True
    with Cons.prems have "deleteControlledPod_items c items w = (r, w')" by simp
    from up[OF Cons.IH[OF this]] show ?thesis .
  next
    case False
    obtain b w1 where d: "clientDeletePod pod w = (b, w1)" by force
    have e1: "extends (podCall ?D {}) w w1"
      by (rule clientDeletePod_extends[OF d]) simp
    show ?thesis
    proof (cases b)
      case None
      with Cons.prems False d have "deleteControlledPod_items c items w1 = (r, w')" by simp
      from up[OF Cons.IH[OF this]] e1 show ?thesis by (rule extends_trans[rotated])
    next
      case (Some e)
      with Cons.prems False d have "w' = w1" by auto
      with e1 show ?thesis by simp
    qed
  qed
qed

lemma resumePod_items_extends:
  "resumePod_items c items w = (r, w') \<Longrightarrow>
   extends (podCall (set items) (resumeClone c ` set items)) w w'"
proof (induction items arbitrary: w)
  case Nil
  then show ?case by (simp add: extends_refl)
next
  case (Cons pod items)
  let ?D = "set (pod # items)" and ?C = "resumeClone c ` set (pod # items)"
  have up: "\<And>u v. extends (podCall (set items) (resumeClone c ` set items)) u v \<Longrightarrow>
     extends (podCall ?D ?C) u v"
    by (erule extends_mono) (auto elim: podCall_mono)
  consider (skip) "Phase (Status pod) \<noteq> PodPhaseSuspended c \<or> SchedulerName (Spec pod) \<noteq> DebtSchedulerName c"
    | (owned) "\<not> (Phase (Status pod) \<noteq> PodPhaseSuspended c \<or> SchedulerName (Spec pod) \<noteq> DebtSchedulerName c)"
        "length (OwnerReferences pod) > 0"
    | (orphan) "\<not> (Phase (Status pod) \<noteq> PodPhaseSuspended c \<or> SchedulerName (Spec pod) \<noteq> DebtSchedulerName c)"
        "\<not> length (OwnerReferences pod) > 0"
    by blast
  then show ?case
  proof cases
    case skip
    with Cons.prems have "resumePod_items c items w = (r, w')" by simp
    from up[OF Cons.IH[OF this]] show ?thesis .
  next
    case owned
    obtain b w1 where d: "clientDeletePod pod w = (b, w1)" by force
    have e1: "extends (podCall ?D ?C) w w1"
      by (rule clientDeletePod_extends[OF d]) simp
    show ?thesis
    proof (cases b)
      case None
      with Cons.prems owned d have "resumePod_items c items w1 = (r, w')" by simp
      from up[OF Cons.IH[OF this]] e1 show ?thesis by (rule extends_trans[rotated])
    next
      case (Some e)
      with Cons.prems owned d have "w' = w1" by auto
      with e1 show ?thesis by simp
    qed
  next
    case orphan
    obtain r1 w1 where rc: "recreatePod pod (resumeClone c pod) w = (r1, w1)" by force
    have e1: "extends (podCall ?D ?C) w w1"
      by (rule recreatePod_extends[OF rc]) simp_all
    show ?thesis
    proof (cases r1)
      case ReturnNil
      with Cons.prems orphan rc have "resumePod_items c items w1 = (r, w')" by simp
      from up[OF Cons.IH[OF this]] e1 show ?thesis by (rule extends_trans[rotated])
    next
      case (ReturnErr e)
      with Cons.prems orphan rc have "w' = w1" by auto
      with e1 show ?thesis by simp
    next
      case Blocks
      with Cons.prems orphan rc have "w' = w1" by auto
      with e1 show ?thesis by simp
    qed
  qed
qed

lemma clientListPods_items:
  "clientListPods n w = (Inr items, w1) \<Longrightarrow> items = filter (\<lambda>p. Namespace p = n) (pods w) \<and> pods w1 = pods w"
  by (auto simp: clientListPods_def request_def split: list.splits option.splits)

lemma suspendOrphanPod_extends:
  assumes "suspendOrphanPod c n w = (r, w')"
  shows "extends (podCall {p \<in> set (pods w). Namespace p = n}
           (suspendClone c ` {p \<in> set (pods w). Namespace p = n})) w w'"
proof -
  obtain a w1 where l: "clientListPods n w = (a, w1)" by force
  note e1 = clientListPods_extends[OF l]
  show ?thesis
  proof (cases a)
    case (Inl e)
    with assms l have "w' = w1" by (simp add: suspendOrphanPod_def)
    with e1 show ?thesis by simp
  next
    case (Inr items)
    with assms l have "suspendOrphanPod_items c items w1 = (r, w')"
      by (simp add: suspendOrphanPod_def)
    from suspendOrphanPod_items_extends[OF this] clientListPods_items[OF l[unfolded Inr]]
    have "extends (podCall {p \<in> set (pods w). Namespace p = n}
           (suspendClone c ` {p \<in> set (pods w). Namespace p = n})) w1 w'" by simp
    with e1 show ?thesis by (rule extends_trans)
  qed
qed

lemma deleteControlledPod_extends:
  assumes "deleteControlledPod c n w = (r, w')"
  shows "extends (podCall {p \<in> set (pods w). Namespace p = n} {}) w w'"
proof -
  obtain a w1 where l: "clientListPods n w = (a, w1)" by force
  note e1 = clientListPods_extends[OF l]
  show ?thesis
  proof (cases a)
    case (Inl e)
    with assms l have "w' = w1" by (simp add: deleteControlledPod_def)
    with e1 show ?thesis by simp
  next
    case (Inr items)
    with assms l have "deleteControlledPod_items c items w1 = (r, w')"
      by (simp add: deleteControlledPod_def)
    from deleteControlledPod_items_extends[OF this] clientListPods_items[OF l[unfolded Inr]]
    have "extends (podCall {p \<in> set (pods w). Namespace p = n} {}) w1 w'" by simp
    with e1 show ?thesis by (rule extends_trans)
  qed
qed

lemma resumePod_extends:
  assumes "resumePod c n w = (r, w')"
  shows "extends (podCall {p \<in> set (pods w). Namespace p = n}
           (resumeClone c ` {p \<in> set (pods w). Namespace p = n})) w w'"
proof -
  obtain a w1 where l: "clientListPods n w = (a, w1)" by force
  note e1 = clientListPods_extends[OF l]
  show ?thesis
  proof (cases a)
    case (Inl e)
    with assms l have "w' = w1" by (simp add: resumePod_def)
    with e1 show ?thesis by simp
  next
    case (Inr items)
    with assms l have "resumePod_items c items w1 = (r, w')"
      by (simp add: resumePod_def)
    from resumePod_items_extends[OF this] clientListPods_items[OF l[unfolded Inr]]
    have "extends (podCall {p \<in> set (pods w). Namespace p = n}
           (resumeClone c ` {p \<in> set (pods w). Namespace p = n})) w1 w'" by simp
    with e1 show ?thesis by (rule extends_trans)
  qed
qed

lemma request_quota_extends: "request x w = (r, w') \<Longrightarrow> quotaCall x \<Longrightarrow> extends quotaCall w w'"
  by (rule request_extends)

lemma clientGetQuota_extends: "clientGetQuota n k w = (r, w') \<Longrightarrow> extends quotaCall w w'"
  by (auto simp: clientGetQuota_def quotaCall_def split: prod.splits option.splits
      dest!: request_extends[where P = quotaCall])

lemma clientCreateQuota_extends: "clientCreateQuota q w = (r, w') \<Longrightarrow> extends quotaCall w w'"
  by (auto simp: clientCreateQuota_def quotaCall_def extends_def split: prod.splits option.splits if_splits
      dest!: request_extends[where P = quotaCall])

lemma clientDeleteQuota_extends: "clientDeleteQuota q w = (r, w') \<Longrightarrow> extends quotaCall w w'"
  by (auto simp: clientDeleteQuota_def quotaCall_def extends_def split: prod.splits option.splits if_splits
      dest!: request_extends[where P = quotaCall])

lemma limitResourceQuotaCreate_extends:
  "limitResourceQuotaCreate n w = (r, w') \<Longrightarrow> extends quotaCall w w'"
  by (auto simp: limitResourceQuotaCreate_def CreateOrUpdate_def Let_def
      split: prod.splits sum.splits if_splits
      dest!: clientGetQuota_extends clientCreateQuota_extends intro: extends_trans)

lemma limitResourceQuotaDelete_extends:
  "limitResourceQuotaDelete n w = (r, w') \<Longrightarrow> extends quotaCall w w'"
  by (auto simp: limitResourceQuotaDelete_def Let_def split: prod.splits dest!: clientDeleteQuota_extends)


lemma extends_newCalls: "extends P w w' \<Longrightarrow> list_all P (newCalls w w')"
  by (auto simp: extends_def newCalls_def)

lemma suspendClone_fields:
  "Name (suspendClone c pod) = Name pod"
  "Namespace (suspendClone c pod) = Namespace pod"
  "OwnerReferences (suspendClone c pod) = OwnerReferences pod"
  "ResourceVersion (suspendClone c pod) = []"
  "NodeName (Spec (suspendClone c pod)) = []"
  "Status (suspendClone c pod) = PodStatus_zero"
  "SchedulerName (Spec (suspendClone c pod)) = DebtSchedulerName c"
  by (simp_all add: suspendClone_def Let_def)

lemma resumeClone_fields:
  "Name (resumeClone c pod) = Name pod"
  "Namespace (resumeClone c pod) = Namespace pod"
  "OwnerReferences (resumeClone c pod) = OwnerReferences pod"
  "ResourceVersion (resumeClone c pod) = []"
  "NodeName (Spec (resumeClone c pod)) = []"
  "Status (resumeClone c pod) = PodStatus_zero"
  "SchedulerName (Spec (resumeClone c pod)) =
     (case lookup (Annotations pod) (PreviousSchedulerName c) of Some s \<Rightarrow> s | None \<Rightarrow> [])"
  by (simp_all add: resumeClone_def Let_def split: option.splits)

lemma suspendClone_writes_table:
  "Annotations (suspendClone c pod) =
     Some ((case Annotations pod of None \<Rightarrow> Map.empty | Some t \<Rightarrow> t)
        (PreviousSchedulerName c \<mapsto> SchedulerName (Spec pod)))"
  by (simp add: suspendClone_def Let_def assign_def split: option.splits)

lemma lookup_Some_table: "lookup m k = Some v \<Longrightarrow> \<exists>t. m = Some t \<and> assign m k v' = Some (t(k \<mapsto> v'))"
  by (auto simp: lookup_def assign_def split: option.splits)

subsection \<open>A channel closed before the deletion is announced\<close>

lemma foldl_receive_fields:
  "pods (foldl (\<lambda>w e. receive e w) w evs) = pods w"
  "calls (foldl (\<lambda>w e. receive e w) w evs) = calls w @ map Received evs"
  by (induction evs arbitrary: w) (simp_all add: receive_def)

text \<open>
  Claim C2. When the watch was opened, the old pod deleted, and the channel is closed after
  events none of which announces the deletion of the old pod (events of type \<open>Error\<close>
  among them), \<open>recreatePod\<close> issues no create; it returns nil, not an error: the loop over
  the channel ends and the function falls through to its last line. The calls issued are the
  watch and the delete, and the pod is gone from the cluster.
\<close>

theorem recreatePod_closed_channel_returns_nil:
  assumes "clientWatch w = (Inr (prepend evs Closed), w1)"
      and "clientDeletePod oldPod w1 = (None, w2)"
      and "\<forall>e \<in> set evs. \<not> announces oldPod e"
  shows "recreatePod oldPod newPod w = (ReturnNil, foldl (\<lambda>w e. receive e w) w2 evs) \<and>
         pods (foldl (\<lambda>w e. receive e w) w2 evs) = pods w2 \<and>
         newCalls w (foldl (\<lambda>w e. receive e w) w2 evs) = WatchPods # DeletePod oldPod # map Received evs"
proof -
  have "recreatePod oldPod newPod w = awaitDeleted oldPod newPod (prepend evs Closed) w2"
    using assms(1,2) by (simp add: recreatePod_def)
  also have "\<dots> = awaitDeleted oldPod newPod Closed (foldl (\<lambda>w e. receive e w) w2 evs)"
    using assms(3) by (rule awaitDeleted_prepend)
  finally have "recreatePod oldPod newPod w = (ReturnNil, foldl (\<lambda>w e. receive e w) w2 evs)" by simp
  moreover have "calls w2 = calls w @ [WatchPods, DeletePod oldPod]"
    using clientWatch_calls[OF assms(1)] clientDeletePod_calls[OF assms(2)] by simp
  ultimately show ?thesis by (simp add: foldl_receive_fields newCalls_def)
qed

theorem recreatePod_closed_channel_returns_nil_witness:
  "recreatePod podA (suspendClone exampleV1 podA)
     (cluster1 ''Suspend'' [] [Ev \<lparr>Type = Error, Object = OtherObject\<rparr> Closed]) =
   (ReturnNil,
    \<lparr>namespaces = [namespace1 ''Suspend''], pods = [podB], quotas = [], reportedPhase = [],
     faults = [], feeds = [],
     calls = [WatchPods, DeletePod podA, Received \<lparr>Type = Error, Object = OtherObject\<rparr>]\<rparr>)"
proof -
  let ?w = "cluster1 ''Suspend'' [] [Ev \<lparr>Type = Error, Object = OtherObject\<rparr> Closed]"
  let ?w1 = "\<lparr>namespaces = [namespace1 ''Suspend''], pods = [podA, podB], quotas = [], reportedPhase = [],
     faults = [], feeds = [], calls = [WatchPods]\<rparr>"
  let ?w2 = "\<lparr>namespaces = [namespace1 ''Suspend''], pods = [podB], quotas = [], reportedPhase = [],
     faults = [], feeds = [], calls = [WatchPods, DeletePod podA]\<rparr>"
  have a: "clientWatch ?w = (Inr (prepend [\<lparr>Type = Error, Object = OtherObject\<rparr>] Closed), ?w1)"
    by (simp add: clientWatch_def request_def cluster1_def)
  have b: "clientDeletePod podA ?w1 = (None, ?w2)"
    by (simp add: clientDeletePod_def request_def sameKey_def podA_def podB_def)
  have c: "\<forall>e \<in> set [\<lparr>Type = Error, Object = OtherObject\<rparr>]. \<not> announces podA e"
    by (simp add: announces_def)
  from recreatePod_closed_channel_returns_nil[OF a b c, of "suspendClone exampleV1 podA"]
  show ?thesis by (simp add: receive_def)
qed

subsection \<open>The previous-scheduler annotation of a parked pod\<close>

text \<open>
  Claim C10. The clone \<open>suspendOrphanPod\<close> builds always has an annotation table, and the
  table maps the previous-scheduler key to the scheduler name of the original pod, the empty
  name included. The platform keeps the annotations of the pod it stores. For any pod with
  these annotations the resume path takes the branch of the recorded annotation: the clone
  of \<open>resumePod\<close> gets the original scheduler name back and does not carry the annotation.
\<close>

theorem parked_pod_carries_previous_scheduler:
  "Annotations (suspendClone c pod) \<noteq> None \<and>
   lookup (Annotations (suspendClone c pod)) (PreviousSchedulerName c) = Some (SchedulerName (Spec pod)) \<and>
   (\<forall>q. Annotations q = Annotations (suspendClone c pod) \<longrightarrow>
      SchedulerName (Spec (resumeClone c q)) = SchedulerName (Spec pod) \<and>
      lookup (Annotations (resumeClone c q)) (PreviousSchedulerName c) = None) \<and>
   Annotations (admit w (suspendClone c pod)) = Annotations (suspendClone c pod)"
  by (simp add: suspendClone_writes_table lookup_def resumeClone_def Let_def delete_def admit_def)

theorem parked_pod_carries_previous_scheduler_witness:
  "SchedulerName (Spec (podA\<lparr>Spec := \<lparr>NodeName = ''node-x'', SchedulerName = []\<rparr>\<rparr>)) = [] \<and>
   lookup (Annotations (suspendClone exampleV1 (podA\<lparr>Spec := \<lparr>NodeName = ''node-x'', SchedulerName = []\<rparr>\<rparr>)))
     (PreviousSchedulerName exampleV1) = Some [] \<and>
   SchedulerName (Spec (resumeClone exampleV1
     (admit (cluster1 ''Suspend'' ''Suspended'' [])
        (suspendClone exampleV1 (podA\<lparr>Spec := \<lparr>NodeName = ''node-x'', SchedulerName = []\<rparr>\<rparr>))))) = [] \<and>
   lookup (Annotations (resumeClone exampleV1
     (admit (cluster1 ''Suspend'' ''Suspended'' [])
        (suspendClone exampleV1 (podA\<lparr>Spec := \<lparr>NodeName = ''node-x'', SchedulerName = []\<rparr>\<rparr>)))))
     (PreviousSchedulerName exampleV1) = None"
  using parked_pod_carries_previous_scheduler[of exampleV1
      "podA\<lparr>Spec := \<lparr>NodeName = ''node-x'', SchedulerName = []\<rparr>\<rparr>" "cluster1 ''Suspend'' ''Suspended'' []"]
  by simp


subsection \<open>Reconcile on an unrecognized status\<close>

lemma clientGetNamespace_Inr:
  assumes "clientGetNamespace name w = (Inr ns, w1)"
  shows "Name ns = name" and "ns \<in> set (namespaces w)" and "namespaces w1 = namespaces w"
    and "pods w1 = pods w" and "quotas w1 = quotas w" and "feeds w1 = feeds w"
    and "reportedPhase w1 = reportedPhase w" and "calls w1 = calls w @ [GetNamespace name]"
  using assms
  by (auto simp: clientGetNamespace_def request_def find_Some_iff
      split: list.splits option.splits prod.splits)

lemma clientUpdateNamespace_effect:
  assumes "clientUpdateNamespace ns w = (e, w')"
  shows "pods w' = pods w" and "quotas w' = quotas w" and "feeds w' = feeds w"
    and "reportedPhase w' = reportedPhase w" and "calls w' = calls w @ [UpdateNamespace ns]"
    and "e = None \<Longrightarrow> namespaces w' = map (\<lambda>x. if Name x = Name ns then ns else x) (namespaces w)"
    and "e \<noteq> None \<Longrightarrow> namespaces w' = namespaces w"
  using assms
  by (auto simp: clientUpdateNamespace_def request_def
      split: list.splits option.splits prod.splits if_splits)

lemma toOutcome_simps:
  "toOutcome e = ReturnNil \<longleftrightarrow> e = None" "toOutcome e \<noteq> Blocks"
  by (auto simp: toOutcome_def split: option.splits)

text \<open>
  Claim C8. When \<open>Reconcile\<close> reads a namespace whose status is none of the three known
  values, the calls it issues are the read of the namespace and one update of it, with the
  object read in which only the status annotation is set to \<open>Normal\<close>. It issues no call
  on pods or quotas; pods, quotas and the platform's other state are as before. When the
  update is served, the namespace object is replaced by the updated one and every other
  namespace object is kept; when it fails, the namespace objects are as before.
\<close>

theorem Reconcile_unrecognized_status:
  assumes get: "clientGetNamespace name w = (Inr ns, w1)"
      and tab: "Annotations ns = Some t"
      and val: "t (DebtNamespaceAnnoStatusKey c) = Some v"
      and unk: "v \<noteq> SuspendDebtNamespaceAnnoStatus c" "v \<noteq> ResumeDebtNamespaceAnnoStatus c"
               "v \<noteq> NormalDebtNamespaceAnnoStatus c"
      and run: "Reconcile c name w = (r, w')"
  shows "newCalls w w' =
           [GetNamespace name,
            UpdateNamespace (ns\<lparr>Annotations :=
              Some (t(DebtNamespaceAnnoStatusKey c \<mapsto> NormalDebtNamespaceAnnoStatus c))\<rparr>)] \<and>
         pods w' = pods w \<and> quotas w' = quotas w \<and> feeds w' = feeds w \<and>
         reportedPhase w' = reportedPhase w \<and>
         (r = ReturnNil \<longrightarrow> namespaces w' =
            map (\<lambda>x. if Name x = name
                 then ns\<lparr>Annotations :=
                   Some (t(DebtNamespaceAnnoStatusKey c \<mapsto> NormalDebtNamespaceAnnoStatus c))\<rparr>
                 else x) (namespaces w)) \<and>
         (r \<noteq> ReturnNil \<longrightarrow> namespaces w' = namespaces w) \<and>
         r \<noteq> Blocks"
proof -
  let ?ns' = "ns\<lparr>Annotations :=
              Some (t(DebtNamespaceAnnoStatusKey c \<mapsto> NormalDebtNamespaceAnnoStatus c))\<rparr>"
  obtain e where upd: "clientUpdateNamespace ?ns' w1 = (e, w')" and r: "r = toOutcome e"
    using run get tab val unk
    by (auto simp: Reconcile_def lookup_def writeNormal_def assign_def Let_def split: prod.splits)
  note g = clientGetNamespace_Inr[OF get]
  note u = clientUpdateNamespace_effect[OF upd]
  have "Name ?ns' = name" using g(1) by simp
  with g u r show ?thesis
    by (auto simp: newCalls_def toOutcome_simps)
qed

theorem Reconcile_unrecognized_status_witness:
  "Reconcile exampleV1 ''ns-1'' (cluster1 ''garbage'' [] []) =
     (ReturnNil,
      \<lparr>namespaces = [(namespace1 ''garbage'')\<lparr>Annotations :=
           Some ([''debt.sealos/status'' \<mapsto> ''garbage'']
             (DebtNamespaceAnnoStatusKey exampleV1 \<mapsto> NormalDebtNamespaceAnnoStatus exampleV1))\<rparr>],
       pods = [podA, podB], quotas = [], reportedPhase = [], faults = [], feeds = [],
       calls = [GetNamespace ''ns-1'',
          UpdateNamespace ((namespace1 ''garbage'')\<lparr>Annotations :=
           Some ([''debt.sealos/status'' \<mapsto> ''garbage'']
             (DebtNamespaceAnnoStatusKey exampleV1 \<mapsto> NormalDebtNamespaceAnnoStatus exampleV1))\<rparr>)]\<rparr>)"
proof -
  let ?w = "cluster1 ''garbage'' [] []"
  let ?w1 = "?w\<lparr>calls := [GetNamespace ''ns-1'']\<rparr>"
  have get: "clientGetNamespace ''ns-1'' ?w = (Inr (namespace1 ''garbage''), ?w1)"
    by (simp add: clientGetNamespace_def request_def cluster1_def namespace1_def)
  have tab: "Annotations (namespace1 ''garbage'') = Some [''debt.sealos/status'' \<mapsto> ''garbage'']"
    by (simp add: namespace1_def)
  have val: "[''debt.sealos/status'' \<mapsto> ''garbage''] (DebtNamespaceAnnoStatusKey exampleV1) = Some ''garbage''"
    by (simp add: exampleV1_def)
  have unk: "''garbage'' \<noteq> SuspendDebtNamespaceAnnoStatus exampleV1"
    "''garbage'' \<noteq> ResumeDebtNamespaceAnnoStatus exampleV1"
    "''garbage'' \<noteq> NormalDebtNamespaceAnnoStatus exampleV1"
    by (simp_all add: exampleV1_def)
  have run: "Reconcile exampleV1 ''ns-1'' ?w =
     (fst (Reconcile exampleV1 ''ns-1'' ?w), snd (Reconcile exampleV1 ''ns-1'' ?w))" by simp
  have ev: "Reconcile exampleV1 ''ns-1'' (cluster1 ''garbage'' [] []) =
     (ReturnNil,
      \<lparr>namespaces = [(namespace1 ''garbage'')\<lparr>Annotations :=
           Some ([''debt.sealos/status'' \<mapsto> ''garbage'']
             (DebtNamespaceAnnoStatusKey exampleV1 \<mapsto> NormalDebtNamespaceAnnoStatus exampleV1))\<rparr>],
       pods = [podA, podB], quotas = [], reportedPhase = [], faults = [], feeds = [],
       calls = [GetNamespace ''ns-1'',
          UpdateNamespace ((namespace1 ''garbage'')\<lparr>Annotations :=
           Some ([''debt.sealos/status'' \<mapsto> ''garbage'']
             (DebtNamespaceAnnoStatusKey exampleV1 \<mapsto> NormalDebtNamespaceAnnoStatus exampleV1))\<rparr>)]\<rparr>)"
    by (simp add: eval_defs)
  from Reconcile_unrecognized_status[OF get tab val unk run] ev show ?thesis by simp
qed


subsection \<open>The quota gate\<close>

lemma find_quota_sameKey:
  "find (\<lambda>q. Namespace q = Namespace x \<and> Name q = Name x) qs = None \<longleftrightarrow> \<not> (\<exists>q \<in> set qs. sameKey q x)"
  by (auto simp: find_None_iff sameKey_def)

lemma limitResourceQuotaCreate_served:
  assumes "faults w = []"
  shows "limitResourceQuotaCreate n w =
     (ReturnNil,
      if \<exists>q \<in> set (quotas w). sameKey q (GetLimit0ResourceQuota n)
      then w\<lparr>calls := calls w @ [GetQuota n ''debt-limit0'']\<rparr>
      else w\<lparr>quotas := quotas w @ [GetLimit0ResourceQuota n],
             calls := calls w @ [GetQuota n ''debt-limit0'', CreateQuota (GetLimit0ResourceQuota n)]\<rparr>)"
proof (cases "\<exists>q \<in> set (quotas w). sameKey q (GetLimit0ResourceQuota n)")
  case True
  then obtain q where "find (\<lambda>q. Namespace q = n \<and> Name q = ''debt-limit0'') (quotas w) = Some q"
    using find_quota_sameKey[of "GetLimit0ResourceQuota n" "quotas w"]
    by (auto simp: GetLimit0ResourceQuota_def)
  with True assms show ?thesis
    by (simp add: limitResourceQuotaCreate_def CreateOrUpdate_def clientGetQuota_def request_def
        toOutcome_def Let_def GetLimit0ResourceQuota_def)
next
  case False
  then have "find (\<lambda>q. Namespace q = n \<and> Name q = ''debt-limit0'') (quotas w) = None"
    using find_quota_sameKey[of "GetLimit0ResourceQuota n" "quotas w"]
    by (auto simp: GetLimit0ResourceQuota_def)
  with False assms show ?thesis
    by (simp add: limitResourceQuotaCreate_def CreateOrUpdate_def clientGetQuota_def request_def
        toOutcome_def Let_def clientCreateQuota_def GetLimit0ResourceQuota_def)
qed

lemma limitResourceQuotaDelete_served:
  assumes "faults w = []"
  shows "limitResourceQuotaDelete n w =
     (ReturnNil,
      w\<lparr>quotas := filter (\<lambda>x. \<not> sameKey x (GetLimit0ResourceQuota n)) (quotas w),
        calls := calls w @ [DeleteQuota (GetLimit0ResourceQuota n)]\<rparr>)"
proof -
  have "\<not> (\<exists>q \<in> set (quotas w). sameKey q (GetLimit0ResourceQuota n)) \<Longrightarrow>
    filter (\<lambda>x. \<not> sameKey x (GetLimit0ResourceQuota n)) (quotas w) = quotas w"
    by (simp add: filter_id_conv)
  with assms show ?thesis
    by (auto simp: limitResourceQuotaDelete_def clientDeleteQuota_def request_def toOutcome_def
        IgnoreNotFound_def Let_def)
qed

text \<open>
  Claim C7. On a platform that serves the requests, two calls of
  \<open>limitResourceQuotaCreate\<close> in a row both return nil, the second leaves the quota
  records as the first left them, and the record \<open>debt-limit0\<close> of the namespace is there
  after the first; \<open>limitResourceQuotaDelete\<close> returns nil when the record is absent and
  leaves the quota records as they are. It also returns nil when the platform answers the
  delete with not-found.
\<close>

theorem quota_gate_idempotent:
  "(faults w = [] \<longrightarrow>
      (\<exists>w1 w2. limitResourceQuotaCreate n w = (ReturnNil, w1) \<and>
         limitResourceQuotaCreate n w1 = (ReturnNil, w2) \<and>
         quotas w2 = quotas w1 \<and> (\<exists>q \<in> set (quotas w1). sameKey q (GetLimit0ResourceQuota n)) \<and>
         pods w2 = pods w \<and> namespaces w2 = namespaces w)) \<and>
   (faults w = [] \<and> \<not> (\<exists>q \<in> set (quotas w). sameKey q (GetLimit0ResourceQuota n)) \<longrightarrow>
      (\<exists>w1. limitResourceQuotaDelete n w = (ReturnNil, w1) \<and> quotas w1 = quotas w \<and>
         pods w1 = pods w \<and> namespaces w1 = namespaces w)) \<and>
   (\<forall>fs. faults w = Some NotFound # fs \<longrightarrow> fst (limitResourceQuotaDelete n w) = ReturnNil)"
proof (intro conjI impI allI)
  assume f: "faults w = []"
  let ?w1 = "snd (limitResourceQuotaCreate n w)"
  have 1: "limitResourceQuotaCreate n w = (ReturnNil, ?w1)"
    using limitResourceQuotaCreate_served[OF f, of n] by simp
  have q1: "\<exists>q \<in> set (quotas ?w1). sameKey q (GetLimit0ResourceQuota n)"
    using limitResourceQuotaCreate_served[OF f, of n] by (auto simp: sameKey_def)
  have f1: "faults ?w1 = []" and p1: "pods ?w1 = pods w" "namespaces ?w1 = namespaces w"
    using limitResourceQuotaCreate_served[OF f, of n] f by auto
  let ?w2 = "snd (limitResourceQuotaCreate n ?w1)"
  have 2: "limitResourceQuotaCreate n ?w1 = (ReturnNil, ?w2)"
    using limitResourceQuotaCreate_served[OF f1, of n] by simp
  have "quotas ?w2 = quotas ?w1" "pods ?w2 = pods ?w1" "namespaces ?w2 = namespaces ?w1"
    using limitResourceQuotaCreate_served[OF f1, of n] q1 by auto
  with 1 2 q1 p1
  show "\<exists>w1 w2. limitResourceQuotaCreate n w = (ReturnNil, w1) \<and>
         limitResourceQuotaCreate n w1 = (ReturnNil, w2) \<and>
         quotas w2 = quotas w1 \<and> (\<exists>q \<in> set (quotas w1). sameKey q (GetLimit0ResourceQuota n)) \<and>
         pods w2 = pods w \<and> namespaces w2 = namespaces w"
    by metis
next
  assume a: "faults w = [] \<and> \<not> (\<exists>q \<in> set (quotas w). sameKey q (GetLimit0ResourceQuota n))"
  then have "filter (\<lambda>x. \<not> sameKey x (GetLimit0ResourceQuota n)) (quotas w) = quotas w"
    by (simp add: filter_id_conv)
  with limitResourceQuotaDelete_served[of w n] a
  show "\<exists>w1. limitResourceQuotaDelete n w = (ReturnNil, w1) \<and> quotas w1 = quotas w \<and>
         pods w1 = pods w \<and> namespaces w1 = namespaces w"
    by simp
next
  fix fs assume "faults w = Some NotFound # fs"
  then show "fst (limitResourceQuotaDelete n w) = ReturnNil"
    by (simp add: limitResourceQuotaDelete_def clientDeleteQuota_def request_def toOutcome_def
        IgnoreNotFound_def Let_def)
qed

theorem quota_gate_idempotent_witness:
  "faults (cluster1 ''Suspend'' [] []) = [] \<and>
   limitResourceQuotaCreate ''ns-1'' (cluster1 ''Suspend'' [] []) =
     (ReturnNil, (cluster1 ''Suspend'' [] [])\<lparr>quotas := [GetLimit0ResourceQuota ''ns-1''],
        calls := [GetQuota ''ns-1'' ''debt-limit0'', CreateQuota (GetLimit0ResourceQuota ''ns-1'')]\<rparr>) \<and>
   limitResourceQuotaCreate ''ns-1'' ((cluster1 ''Suspend'' [] [])\<lparr>quotas := [GetLimit0ResourceQuota ''ns-1''],
        calls := [GetQuota ''ns-1'' ''debt-limit0'', CreateQuota (GetLimit0ResourceQuota ''ns-1'')]\<rparr>) =
     (ReturnNil, (cluster1 ''Suspend'' [] [])\<lparr>quotas := [GetLimit0ResourceQuota ''ns-1''],
        calls := [GetQuota ''ns-1'' ''debt-limit0'', CreateQuota (GetLimit0ResourceQuota ''ns-1''),
          GetQuota ''ns-1'' ''debt-limit0'']\<rparr>) \<and>
   limitResourceQuotaDelete ''ns-1'' (cluster1 ''Suspend'' [] []) =
     (ReturnNil, (cluster1 ''Suspend'' [] [])\<lparr>calls := [DeleteQuota (GetLimit0ResourceQuota ''ns-1'')]\<rparr>)"
proof -
  have f: "faults (cluster1 ''Suspend'' [] []) = []" by (simp add: cluster1_def)
  have "\<exists>w1 w2. limitResourceQuotaCreate ''ns-1'' (cluster1 ''Suspend'' [] []) = (ReturnNil, w1) \<and>
         limitResourceQuotaCreate ''ns-1'' w1 = (ReturnNil, w2) \<and> quotas w2 = quotas w1"
    using quota_gate_idempotent[of "cluster1 ''Suspend'' [] []" "''ns-1''"] f by blast
  moreover have "limitResourceQuotaCreate ''ns-1'' (cluster1 ''Suspend'' [] []) =
     (ReturnNil, (cluster1 ''Suspend'' [] [])\<lparr>quotas := [GetLimit0ResourceQuota ''ns-1''],
        calls := [GetQuota ''ns-1'' ''debt-limit0'', CreateQuota (GetLimit0ResourceQuota ''ns-1'')]\<rparr>)"
    by (simp add: eval_defs)
  moreover have "limitResourceQuotaCreate ''ns-1'' ((cluster1 ''Suspend'' [] [])\<lparr>quotas := [GetLimit0ResourceQuota ''ns-1''],
        calls := [GetQuota ''ns-1'' ''debt-limit0'', CreateQuota (GetLimit0ResourceQuota ''ns-1'')]\<rparr>) =
     (ReturnNil, (cluster1 ''Suspend'' [] [])\<lparr>quotas := [GetLimit0ResourceQuota ''ns-1''],
        calls := [GetQuota ''ns-1'' ''debt-limit0'', CreateQuota (GetLimit0ResourceQuota ''ns-1''),
          GetQuota ''ns-1'' ''debt-limit0'']\<rparr>)"
    by (simp add: eval_defs)
  moreover have "limitResourceQuotaDelete ''ns-1'' (cluster1 ''Suspend'' [] []) =
     (ReturnNil, (cluster1 ''Suspend'' [] [])\<lparr>calls := [DeleteQuota (GetLimit0ResourceQuota ''ns-1'')]\<rparr>)"
    by (simp add: eval_defs)
  ultimately show ?thesis using f by blast
qed


subsection \<open>Reconcile on a resume request\<close>

lemma runPipelines_two:
  "runPipelines [f, g] n w =
     (case f n w of (ReturnNil, w1) \<Rightarrow> g n w1 | (ReturnErr e, w1) \<Rightarrow> (ReturnErr e, w1)
      | (Blocks, w1) \<Rightarrow> (Blocks, w1))"
  by (auto split: prod.splits outcome.splits)

lemma ResumeUserResource_extends:
  assumes "ResumeUserResource c n w = (r, w')"
  shows "extends (\<lambda>x. \<not> isUpdateNamespace x) w w'"
proof -
  obtain r1 w1 where q: "limitResourceQuotaDelete n w = (r1, w1)" by force
  have e1: "extends (\<lambda>x. \<not> isUpdateNamespace x) w w1"
    by (rule extends_mono[OF limitResourceQuotaDelete_extends[OF q]])
       (auto simp: quotaCall_def isUpdateNamespace_def split: Call.splits)
  show ?thesis
  proof (cases r1)
    case ReturnNil
    with assms q have p: "resumePod c n w1 = (r, w')"
      by (simp add: ResumeUserResource_def runPipelines_two del: runPipelines.simps)
    have "extends (\<lambda>x. \<not> isUpdateNamespace x) w1 w'"
      by (rule extends_mono[OF resumePod_extends[OF p]])
         (auto simp: podCall_def isUpdateNamespace_def split: Call.splits)
    with e1 show ?thesis by (rule extends_trans)
  next
    case (ReturnErr e)
    with assms q have "w' = w1"
      by (simp add: ResumeUserResource_def runPipelines_two del: runPipelines.simps)
    with e1 show ?thesis by simp
  next
    case Blocks
    with assms q have "w' = w1"
      by (simp add: ResumeUserResource_def runPipelines_two del: runPipelines.simps)
    with e1 show ?thesis by simp
  qed
qed

text \<open>
  Claim C6. When \<open>Reconcile\<close> reads a namespace whose status is the resume request, it
  issues an update of the namespace if and only if the resume pipeline returned nil, and
  the update then is the last call and carries the object read with the status annotation
  set to \<open>Normal\<close> (stored when the update is served). When the pipeline fails or blocks,
  \<open>Reconcile\<close> ends as the pipeline did, with the pipeline's error and state, and the
  namespace objects are as before.
\<close>

theorem Reconcile_resume_writes_Normal_iff:
  assumes get: "clientGetNamespace name w = (Inr ns, w1)"
      and tab: "Annotations ns = Some t"
      and val: "t (DebtNamespaceAnnoStatusKey c) = Some (ResumeDebtNamespaceAnnoStatus c)"
      and ne: "ResumeDebtNamespaceAnnoStatus c \<noteq> SuspendDebtNamespaceAnnoStatus c"
      and pipe: "ResumeUserResource c name w1 = (r, w2)"
      and run: "Reconcile c name w = (r', w')"
  shows "((\<exists>x \<in> set (newCalls w w'). isUpdateNamespace x) \<longleftrightarrow> r = ReturnNil) \<and>
         (r = ReturnNil \<longrightarrow>
            newCalls w w' = newCalls w w2 @
              [UpdateNamespace (ns\<lparr>Annotations :=
                 Some (t(DebtNamespaceAnnoStatusKey c \<mapsto> NormalDebtNamespaceAnnoStatus c))\<rparr>)] \<and>
            (r' = ReturnNil \<longrightarrow> namespaces w' =
               map (\<lambda>x. if Name x = name
                    then ns\<lparr>Annotations :=
                      Some (t(DebtNamespaceAnnoStatusKey c \<mapsto> NormalDebtNamespaceAnnoStatus c))\<rparr>
                    else x) (namespaces w)) \<and>
            (r' \<noteq> ReturnNil \<longrightarrow> namespaces w' = namespaces w)) \<and>
         (r \<noteq> ReturnNil \<longrightarrow> r' = r \<and> w' = w2 \<and> namespaces w' = namespaces w)"
proof -
  let ?ns' = "ns\<lparr>Annotations :=
              Some (t(DebtNamespaceAnnoStatusKey c \<mapsto> NormalDebtNamespaceAnnoStatus c))\<rparr>"
  note g = clientGetNamespace_Inr[OF get]
  from ResumeUserResource_extends[OF pipe] obtain cs where
    e: "namespaces w2 = namespaces w1" "calls w2 = calls w1 @ cs" "\<forall>x \<in> set cs. \<not> isUpdateNamespace x"
    by (auto simp: extends_def list_all_iff)
  have nc2: "newCalls w w2 = GetNamespace name # cs"
    using g(8) e(2) by (simp add: newCalls_def)
  have noupd: "\<not> (\<exists>x \<in> set (newCalls w w2). isUpdateNamespace x)"
    using nc2 e(3) by (simp add: isUpdateNamespace_def)
  have rec: "Reconcile c name w =
     (case r of ReturnNil \<Rightarrow> writeNormal c ns w2 | ReturnErr err \<Rightarrow> (ReturnErr err, w2)
      | Blocks \<Rightarrow> (Blocks, w2))"
    using get tab val ne pipe by (simp add: Reconcile_def lookup_def)
  show ?thesis
  proof (cases "r = ReturnNil")
    case True
    with rec run have "writeNormal c ns w2 = (r', w')" by simp
    then obtain e' where upd: "clientUpdateNamespace ?ns' w2 = (e', w')" and r': "r' = toOutcome e'"
      using tab by (auto simp: writeNormal_def assign_def Let_def split: prod.splits)
    note u = clientUpdateNamespace_effect[OF upd]
    have n: "Name ?ns' = name" using g(1) by simp
    have "newCalls w w' = newCalls w w2 @ [UpdateNamespace ?ns']"
      using u(5) g(8) e(2) by (simp add: newCalls_def)
    moreover from this have "\<exists>x \<in> set (newCalls w w'). isUpdateNamespace x"
      by (simp add: isUpdateNamespace_def)
    moreover have "r' = ReturnNil \<longrightarrow> namespaces w' =
               map (\<lambda>x. if Name x = name then ?ns' else x) (namespaces w)"
      using u(6) r' n e(1) g(3) by (auto simp: toOutcome_simps)
    moreover have "r' \<noteq> ReturnNil \<longrightarrow> namespaces w' = namespaces w"
      using u(7) r' e(1) g(3) by (auto simp: toOutcome_simps)
    ultimately show ?thesis using True by blast
  next
    case False
    with rec run have "r' = r \<and> w' = w2" by (cases r) auto
    with False noupd e(1) g(3) show ?thesis by auto
  qed
qed

theorem Reconcile_resume_writes_Normal_iff_witness:
  "Reconcile exampleV1 ''ns-1''
     ((cluster1 ''Resume'' [] [])\<lparr>faults := [None, None, Some (ApiFailure ''refused'')]\<rparr>) =
     (ReturnErr (ApiFailure ''refused''),
      (cluster1 ''Resume'' [] [])\<lparr>calls :=
         [GetNamespace ''ns-1'', DeleteQuota (GetLimit0ResourceQuota ''ns-1''), ListPods ''ns-1'']\<rparr>) \<and>
   ResumeDebtNamespaceAnnoStatus exampleV1 \<noteq> SuspendDebtNamespaceAnnoStatus exampleV1 \<and>
   Reconcile exampleV1 ''ns-1'' (cluster1 ''Resume'' [] []) =
     (ReturnNil,
      (cluster1 ''Normal'' [] [])\<lparr>calls :=
         [GetNamespace ''ns-1'', DeleteQuota (GetLimit0ResourceQuota ''ns-1''), ListPods ''ns-1'',
          UpdateNamespace (namespace1 ''Normal'')]\<rparr>)"
proof -
  let ?w = "(cluster1 ''Resume'' [] [])\<lparr>faults := [None, None, Some (ApiFailure ''refused'')]\<rparr>"
  let ?w1 = "(cluster1 ''Resume'' [] [])\<lparr>faults := [None, Some (ApiFailure ''refused'')],
     calls := [GetNamespace ''ns-1'']\<rparr>"
  let ?w2 = "(cluster1 ''Resume'' [] [])\<lparr>calls :=
         [GetNamespace ''ns-1'', DeleteQuota (GetLimit0ResourceQuota ''ns-1''), ListPods ''ns-1'']\<rparr>"
  have get: "clientGetNamespace ''ns-1'' ?w = (Inr (namespace1 ''Resume''), ?w1)"
    by (simp add: clientGetNamespace_def request_def cluster1_def namespace1_def)
  have tab: "Annotations (namespace1 ''Resume'') = Some [''debt.sealos/status'' \<mapsto> ''Resume'']"
    by (simp add: namespace1_def)
  have val: "[''debt.sealos/status'' \<mapsto> ''Resume''] (DebtNamespaceAnnoStatusKey exampleV1) =
      Some (ResumeDebtNamespaceAnnoStatus exampleV1)"
    by (simp add: exampleV1_def)
  have ne: "ResumeDebtNamespaceAnnoStatus exampleV1 \<noteq> SuspendDebtNamespaceAnnoStatus exampleV1"
    by (simp add: exampleV1_def)
  have pipe: "ResumeUserResource exampleV1 ''ns-1'' ?w1 = (ReturnErr (ApiFailure ''refused''), ?w2)"
    by (simp add: eval_defs)
  have run: "Reconcile exampleV1 ''ns-1'' ?w =
     (fst (Reconcile exampleV1 ''ns-1'' ?w), snd (Reconcile exampleV1 ''ns-1'' ?w))" by simp
  from Reconcile_resume_writes_Normal_iff[OF get tab val ne pipe run]
  have "fst (Reconcile exampleV1 ''ns-1'' ?w) = ReturnErr (ApiFailure ''refused'') \<and>
     snd (Reconcile exampleV1 ''ns-1'' ?w) = ?w2" by simp
  then have "Reconcile exampleV1 ''ns-1'' ?w = (ReturnErr (ApiFailure ''refused''), ?w2)"
    by (metis prod.collapse)
  moreover have "Reconcile exampleV1 ''ns-1'' (cluster1 ''Resume'' [] []) =
     (ReturnNil,
      (cluster1 ''Normal'' [] [])\<lparr>calls :=
         [GetNamespace ''ns-1'', DeleteQuota (GetLimit0ResourceQuota ''ns-1''), ListPods ''ns-1'',
          UpdateNamespace (namespace1 ''Normal'')]\<rparr>)"
    by (simp add: eval_defs parked_def)
  ultimately show ?thesis using ne by blast
qed


subsection \<open>Runs on a platform that serves every request\<close>

lemma createdPods_append: "createdPods (xs @ ys) = createdPods xs @ createdPods ys"
  by (induction xs rule: createdPods.induct) simp_all

lemma deletedPods_append: "deletedPods (xs @ ys) = deletedPods xs @ deletedPods ys"
  by (induction xs rule: deletedPods.induct) simp_all

lemma sameKey_key: "sameKey (p::Pod) (q::Pod) \<longleftrightarrow> key p = key q"
  by (auto simp: sameKey_def key_def)

lemma key_admit: "key (admit w p) = key p"
  by (simp add: key_def admit_def)

lemma clientDeletePod_served:
  "faults w = [] \<Longrightarrow> \<exists>p \<in> set (pods w). sameKey p pod \<Longrightarrow>
   clientDeletePod pod w =
     (None, w\<lparr>pods := filter (\<lambda>p. \<not> sameKey p pod) (pods w), calls := calls w @ [DeletePod pod]\<rparr>)"
  by (simp add: clientDeletePod_def request_def)

lemma clientCreatePod_served:
  "faults w = [] \<Longrightarrow> \<not> (\<exists>p \<in> set (pods w). sameKey p pod) \<Longrightarrow> ResourceVersion pod = [] \<Longrightarrow>
   clientCreatePod pod w =
     (None, w\<lparr>pods := pods w @ [admit w pod], calls := calls w @ [CreatePod pod]\<rparr>)"
  by (simp add: clientCreatePod_def request_def admit_def)

lemma awaitDeleted_served:
  "faults w = [] \<Longrightarrow> delivers oldPod ch \<Longrightarrow> \<not> (\<exists>p \<in> set (pods w). sameKey p newPod) \<Longrightarrow>
   ResourceVersion newPod = [] \<Longrightarrow>
   \<exists>cs. awaitDeleted oldPod newPod ch w =
     (ReturnNil, w\<lparr>pods := pods w @ [admit w newPod], calls := calls w @ cs\<rparr>) \<and>
     createdPods cs = [newPod] \<and> deletedPods cs = []"
proof (induction ch arbitrary: w)
  case Closed
  then show ?case by simp
next
  case Silent
  then show ?case by simp
next
  case (Ev event ch)
  show ?case
  proof (cases "announces oldPod event")
    case True
    then have m: "Type event = Deleted" "\<exists>val. Object event = PodObject val \<and> Name val = Name oldPod"
      by (auto simp: announces_def split: Object.splits)
    have "clientCreatePod newPod (receive event w) =
       (None, (receive event w)\<lparr>pods := pods (receive event w) @ [admit (receive event w) newPod],
          calls := calls (receive event w) @ [CreatePod newPod]\<rparr>)"
      using Ev.prems by (intro clientCreatePod_served) (simp_all add: receive_def)
    with m have "awaitDeleted oldPod newPod (Ev event ch) w =
       (ReturnNil, w\<lparr>pods := pods w @ [admit w newPod],
          calls := calls w @ [Received event, CreatePod newPod, StopWatch]\<rparr>)"
      by (auto simp: Let_def receive_def watcherStop_def admit_def)
    then show ?thesis
      by (intro exI[of _ "[Received event, CreatePod newPod, StopWatch]"]) simp
  next
    case False
    with Ev.prems(2) have d: "delivers oldPod ch" by simp
    have "\<exists>cs. awaitDeleted oldPod newPod ch (receive event w) =
       (ReturnNil, (receive event w)\<lparr>pods := pods (receive event w) @ [admit (receive event w) newPod],
          calls := calls (receive event w) @ cs\<rparr>) \<and>
       createdPods cs = [newPod] \<and> deletedPods cs = []"
      using Ev.prems d by (intro Ev.IH) (simp_all add: receive_def)
    then obtain cs where
      r: "awaitDeleted oldPod newPod ch (receive event w) =
       (ReturnNil, (receive event w)\<lparr>pods := pods (receive event w) @ [admit (receive event w) newPod],
          calls := calls (receive event w) @ cs\<rparr>)"
      and c: "createdPods cs = [newPod]" "deletedPods cs = []" by blast
    have "awaitDeleted oldPod newPod (Ev event ch) w =
       (ReturnNil, w\<lparr>pods := pods w @ [admit w newPod], calls := calls w @ (Received event # cs)\<rparr>)"
      using r by (simp add: awaitDeleted_skip[OF False] receive_def admit_def del: awaitDeleted.simps)
    with c show ?thesis
      by (intro exI[of _ "Received event # cs"]) simp
  qed
qed

lemma recreatePod_served:
  assumes "faults w = []" and "feeds w = ch # chs" and "delivers oldPod ch"
    and "\<exists>p \<in> set (pods w). sameKey p oldPod" and "sameKey newPod oldPod"
    and "ResourceVersion newPod = []"
  shows "\<exists>cs. recreatePod oldPod newPod w =
     (ReturnNil, w\<lparr>pods := filter (\<lambda>p. \<not> sameKey p oldPod) (pods w) @ [admit w newPod],
        feeds := chs, calls := calls w @ cs\<rparr>) \<and>
     createdPods cs = [newPod] \<and> deletedPods cs = [oldPod]"
proof -
  let ?w1 = "w\<lparr>feeds := chs, calls := calls w @ [WatchPods]\<rparr>"
  let ?w2 = "?w1\<lparr>pods := filter (\<lambda>p. \<not> sameKey p oldPod) (pods ?w1),
                calls := calls ?w1 @ [DeletePod oldPod]\<rparr>"
  have a: "clientWatch w = (Inr ch, ?w1)"
    using assms(1,2) by (simp add: clientWatch_def request_def)
  have b: "clientDeletePod oldPod ?w1 = (None, ?w2)"
    using assms(1,4) by (intro clientDeletePod_served) simp_all
  have "\<not> (\<exists>p \<in> set (pods ?w2). sameKey p newPod)"
    using assms(5) by (auto simp: sameKey_def)
  then have "\<exists>cs. awaitDeleted oldPod newPod ch ?w2 =
     (ReturnNil, ?w2\<lparr>pods := pods ?w2 @ [admit ?w2 newPod], calls := calls ?w2 @ cs\<rparr>) \<and>
     createdPods cs = [newPod] \<and> deletedPods cs = []"
    using assms(1,3,6) by (intro awaitDeleted_served) simp_all
  then obtain cs where r: "awaitDeleted oldPod newPod ch ?w2 =
     (ReturnNil, ?w2\<lparr>pods := pods ?w2 @ [admit ?w2 newPod], calls := calls ?w2 @ cs\<rparr>)"
    and c: "createdPods cs = [newPod]" "deletedPods cs = []" by blast
  from r a b have "recreatePod oldPod newPod w =
     (ReturnNil, w\<lparr>pods := filter (\<lambda>p. \<not> sameKey p oldPod) (pods w) @ [admit w newPod],
        feeds := chs, calls := calls w @ (WatchPods # DeletePod oldPod # cs)\<rparr>)"
    by (simp add: recreatePod_def admit_def)
  with c show ?thesis
    by (intro exI[of _ "WatchPods # DeletePod oldPod # cs"]) simp
qed


lemma key_inj_pods:
  "distinct (map key ps) \<Longrightarrow> p \<in> set ps \<Longrightarrow> q \<in> set ps \<Longrightarrow> key p = key q \<Longrightarrow> p = q"
  by (meson distinct_map inj_onD)

lemma perform_served:
  assumes "faults w = []"
    and "confirming (replaced d items) (feeds w)"
    and "distinct (map key items)"
    and "set items \<subseteq> set (pods w)"
    and "distinct (map key (pods w))"
    and "\<forall>p \<in> set items. \<forall>cl. d p = Replace cl \<longrightarrow> key cl = key p \<and> ResourceVersion cl = []"
  shows "\<exists>cs. perform d items w =
     Some (w\<lparr>pods := filter (kept d items) (pods w) @ map (admit w) (clones d items),
            feeds := drop (length (replaced d items)) (feeds w), calls := calls w @ cs\<rparr>) \<and>
     distinct (map key (filter (kept d items) (pods w) @ map (admit w) (clones d items))) \<and>
     createdPods cs = clones d items \<and> deletedPods cs = filter (\<lambda>p. d p \<noteq> Skip) items"
  using assms
proof (induction items arbitrary: w)
  case Nil
  have "filter (kept d []) (pods w) = pods w" by (simp add: kept_def)
  with Nil show ?case by (intro exI[of _ "[]"]) simp
next
  case (Cons pod ps)
  have pod_in: "pod \<in> set (pods w)" and ps_in: "set ps \<subseteq> set (pods w)"
    using Cons.prems(4) by auto
  have dps: "distinct (map key ps)" and "key pod \<notin> key ` set ps"
    using Cons.prems(3) by simp_all
  then have knot: "\<forall>q \<in> set ps. key q \<noteq> key pod" by (metis imageI)
  have same: "\<And>p. p \<in> set (pods w) \<Longrightarrow> sameKey p pod \<longleftrightarrow> p = pod"
    using key_inj_pods[OF Cons.prems(5) _ pod_in] by (auto simp: sameKey_key)
  have cl_ps: "\<forall>p \<in> set ps. \<forall>cl. d p = Replace cl \<longrightarrow> key cl = key p \<and> ResourceVersion cl = []"
    using Cons.prems(6) by simp
  show ?case
  proof (cases "d pod")
    case Skip
    have f: "filter (kept d ps) (pods w) = filter (kept d (pod # ps)) (pods w)"
      using Skip by (intro filter_cong) (auto simp: kept_def)
    have c1: "confirming (replaced d ps) (feeds w)"
      using Cons.prems(2) Skip by simp
    from Cons.IH[OF Cons.prems(1) c1 dps ps_in Cons.prems(5) cl_ps]
    obtain cs where
      run: "perform d ps w =
        Some (w\<lparr>pods := filter (kept d ps) (pods w) @ map (admit w) (clones d ps),
            feeds := drop (length (replaced d ps)) (feeds w), calls := calls w @ cs\<rparr>)"
      and dist: "distinct (map key (filter (kept d ps) (pods w) @ map (admit w) (clones d ps)))"
      and cd: "createdPods cs = clones d ps" "deletedPods cs = filter (\<lambda>p. d p \<noteq> Skip) ps"
      by blast
    have e1: "perform d (pod # ps) w = perform d ps w" using Skip by simp
    have e2: "clones d (pod # ps) = clones d ps" "replaced d (pod # ps) = replaced d ps"
      using Skip by simp_all
    have e3: "filter (\<lambda>p. d p \<noteq> Skip) (pod # ps) = filter (\<lambda>p. d p \<noteq> Skip) ps"
      using Skip by simp
    show ?thesis unfolding e1 e2 e3 using run[unfolded f] dist[unfolded f] cd by blast
  next
    case Remove
    let ?P1 = "filter (\<lambda>p. \<not> sameKey p pod) (pods w)"
    let ?w1 = "w\<lparr>pods := ?P1, calls := calls w @ [DeletePod pod]\<rparr>"
    have del: "clientDeletePod pod w = (None, ?w1)"
      using Cons.prems(1) pod_in by (intro clientDeletePod_served) (auto simp: sameKey_def)
    have in1: "set ps \<subseteq> set (pods ?w1)"
      using ps_in knot by (auto simp: sameKey_key)
    have d1: "distinct (map key (pods ?w1))"
      using Cons.prems(5) by (simp add: distinct_map_filter)
    have c1: "confirming (replaced d ps) (feeds ?w1)"
      using Cons.prems(2) Remove by simp
    have f1: "faults ?w1 = []" using Cons.prems(1) by simp
    from Cons.IH[OF f1 c1 dps in1 d1 cl_ps]
    obtain cs where
      run: "perform d ps ?w1 =
        Some (?w1\<lparr>pods := filter (kept d ps) (pods ?w1) @ map (admit ?w1) (clones d ps),
            feeds := drop (length (replaced d ps)) (feeds ?w1), calls := calls ?w1 @ cs\<rparr>)"
      and dist: "distinct (map key (filter (kept d ps) (pods ?w1) @ map (admit ?w1) (clones d ps)))"
      and cd: "createdPods cs = clones d ps" "deletedPods cs = filter (\<lambda>p. d p \<noteq> Skip) ps"
      by blast
    have f: "filter (kept d ps) ?P1 = filter (kept d (pod # ps)) (pods w)"
      using same Remove by (auto intro!: filter_cong simp: kept_def)
    have p1: "pods ?w1 = ?P1" by simp
    have adm: "admit ?w1 = admit w" by (auto simp: admit_def)
    have e2: "clones d (pod # ps) = clones d ps" "replaced d (pod # ps) = replaced d ps"
      using Remove by simp_all
    have w1: "?w1\<lparr>pods := filter (kept d (pod # ps)) (pods w) @ map (admit w) (clones d ps),
            feeds := drop (length (replaced d ps)) (feeds ?w1), calls := calls ?w1 @ cs\<rparr> =
          w\<lparr>pods := filter (kept d (pod # ps)) (pods w) @ map (admit w) (clones d ps),
            feeds := drop (length (replaced d ps)) (feeds w), calls := calls w @ (DeletePod pod # cs)\<rparr>"
      by simp
    have "perform d (pod # ps) w = perform d ps ?w1" using del Remove by simp
    with run[unfolded p1 f adm w1] have "perform d (pod # ps) w =
        Some (w\<lparr>pods := filter (kept d (pod # ps)) (pods w) @ map (admit w) (clones d ps),
            feeds := drop (length (replaced d ps)) (feeds w), calls := calls w @ (DeletePod pod # cs)\<rparr>)"
      by (simp only:)
    moreover have "createdPods (DeletePod pod # cs) = clones d ps"
      "deletedPods (DeletePod pod # cs) = filter (\<lambda>p. d p \<noteq> Skip) (pod # ps)"
      using cd Remove by simp_all
    ultimately show ?thesis using dist[unfolded p1 f adm]
      unfolding e2 by blast
  next
    case (Replace cl)
    with Cons.prems(6) have kcl: "key cl = key pod" and rv: "ResourceVersion cl = []" by auto
    from Cons.prems(2) Replace obtain ch chs where
      fe: "feeds w = ch # chs" and dl: "delivers pod ch" and c1': "confirming (replaced d ps) chs"
      by (cases "feeds w") auto
    let ?P1 = "filter (\<lambda>p. \<not> sameKey p pod) (pods w) @ [admit w cl]"
    from recreatePod_served[OF Cons.prems(1) fe dl _ _ rv] pod_in kcl
    obtain cs0 where rec: "recreatePod pod cl w =
       (ReturnNil, w\<lparr>pods := ?P1, feeds := chs, calls := calls w @ cs0\<rparr>)"
      and cd0: "createdPods cs0 = [cl]" "deletedPods cs0 = [pod]"
      by (auto simp: sameKey_key)
    let ?w1 = "w\<lparr>pods := ?P1, feeds := chs, calls := calls w @ cs0\<rparr>"
    have in1: "set ps \<subseteq> set (pods ?w1)"
      using ps_in knot by (auto simp: sameKey_key)
    have d1: "distinct (map key (pods ?w1))"
      using Cons.prems(5) kcl by (auto simp: distinct_map_filter key_admit sameKey_key)
    have c1: "confirming (replaced d ps) (feeds ?w1)" using c1' by simp
    have f1: "faults ?w1 = []" using Cons.prems(1) by simp
    from Cons.IH[OF f1 c1 dps in1 d1 cl_ps]
    obtain cs where
      run: "perform d ps ?w1 =
        Some (?w1\<lparr>pods := filter (kept d ps) (pods ?w1) @ map (admit ?w1) (clones d ps),
            feeds := drop (length (replaced d ps)) (feeds ?w1), calls := calls ?w1 @ cs\<rparr>)"
      and dist: "distinct (map key (filter (kept d ps) (pods ?w1) @ map (admit ?w1) (clones d ps)))"
      and cd: "createdPods cs = clones d ps" "deletedPods cs = filter (\<lambda>p. d p \<noteq> Skip) ps"
      by blast
    have notin: "admit w cl \<notin> set ps"
      using knot kcl key_admit[of w cl] by metis
    have f: "filter (kept d ps) ?P1 @ map (admit w) (clones d ps) =
             filter (kept d (pod # ps)) (pods w) @ map (admit w) (clones d (pod # ps))"
      using same Replace notin by (auto intro!: filter_cong simp: kept_def)
    have p1: "pods ?w1 = ?P1" by simp
    have adm: "admit ?w1 = admit w" by (auto simp: admit_def)
    have e2: "replaced d (pod # ps) = pod # replaced d ps"
      using Replace by simp
    have w1: "?w1\<lparr>pods := filter (kept d (pod # ps)) (pods w) @ map (admit w) (clones d (pod # ps)),
            feeds := drop (length (replaced d ps)) (feeds ?w1), calls := calls ?w1 @ cs\<rparr> =
          w\<lparr>pods := filter (kept d (pod # ps)) (pods w) @ map (admit w) (clones d (pod # ps)),
            feeds := drop (length (replaced d (pod # ps))) (feeds w), calls := calls w @ (cs0 @ cs)\<rparr>"
      using fe e2 by simp
    have "perform d (pod # ps) w = perform d ps ?w1" using rec Replace by simp
    with run[unfolded p1 adm f w1] have "perform d (pod # ps) w =
        Some (w\<lparr>pods := filter (kept d (pod # ps)) (pods w) @ map (admit w) (clones d (pod # ps)),
            feeds := drop (length (replaced d (pod # ps))) (feeds w), calls := calls w @ (cs0 @ cs)\<rparr>)"
      by (simp only:)
    moreover have "createdPods (cs0 @ cs) = clones d (pod # ps)"
      "deletedPods (cs0 @ cs) = filter (\<lambda>p. d p \<noteq> Skip) (pod # ps)"
      using cd cd0 Replace by (simp_all add: createdPods_append deletedPods_append)
    ultimately show ?thesis using dist[unfolded p1 adm f]
      by blast
  qed
qed

lemma perform_suspendOrphanPod_items:
  "perform (suspendOrphanPod_disposition c) items w = Some w' \<Longrightarrow>
   suspendOrphanPod_items c items w = (ReturnNil, w')"
proof (induction items arbitrary: w)
  case Nil
  then show ?case by simp
next
  case (Cons pod items)
  let ?d = "suspendOrphanPod_disposition c"
  show ?case
  proof (cases "SchedulerName (Spec pod) = DebtSchedulerName c \<or> length (OwnerReferences pod) > 0")
    case True
    then have "?d pod = Skip" by (simp add: suspendOrphanPod_disposition_def)
    with Cons.prems have "perform ?d items w = Some w'" by simp
    from Cons.IH[OF this] True show ?thesis by simp
  next
    case False
    then have d: "?d pod = Replace (suspendClone c pod)"
      by (simp add: suspendOrphanPod_disposition_def)
    obtain r1 w1 where rc: "recreatePod pod (suspendClone c pod) w = (r1, w1)" by force
    with Cons.prems d have "r1 = ReturnNil \<and> perform ?d items w1 = Some w'"
      by (cases r1) simp_all
    with Cons.IH[of w1] rc False show ?thesis by simp
  qed
qed

lemma perform_deleteControlledPod_items:
  "perform (deleteControlledPod_disposition c) items w = Some w' \<Longrightarrow>
   deleteControlledPod_items c items w = (ReturnNil, w')"
proof (induction items arbitrary: w)
  case Nil
  then show ?case by simp
next
  case (Cons pod items)
  let ?d = "deleteControlledPod_disposition c"
  show ?case
  proof (cases "SchedulerName (Spec pod) = DebtSchedulerName c \<or> length (OwnerReferences pod) = 0")
    case True
    then have "?d pod = Skip" by (simp add: deleteControlledPod_disposition_def)
    with Cons.prems have "perform ?d items w = Some w'" by simp
    from Cons.IH[OF this] True show ?thesis by simp
  next
    case False
    then have d: "?d pod = Remove"
      by (simp add: deleteControlledPod_disposition_def)
    obtain e w1 where rc: "clientDeletePod pod w = (e, w1)" by force
    with Cons.prems d have "e = None \<and> perform ?d items w1 = Some w'"
      by (cases e) simp_all
    with Cons.IH[of w1] rc False show ?thesis by simp
  qed
qed

lemma perform_resumePod_items:
  "perform (resumePod_disposition c) items w = Some w' \<Longrightarrow>
   resumePod_items c items w = (ReturnNil, w')"
proof (induction items arbitrary: w)
  case Nil
  then show ?case by simp
next
  case (Cons pod items)
  let ?d = "resumePod_disposition c"
  consider (skip) "Phase (Status pod) \<noteq> PodPhaseSuspended c \<or> SchedulerName (Spec pod) \<noteq> DebtSchedulerName c"
    | (owned) "\<not> (Phase (Status pod) \<noteq> PodPhaseSuspended c \<or> SchedulerName (Spec pod) \<noteq> DebtSchedulerName c)"
        "length (OwnerReferences pod) > 0"
    | (unowned) "\<not> (Phase (Status pod) \<noteq> PodPhaseSuspended c \<or> SchedulerName (Spec pod) \<noteq> DebtSchedulerName c)"
        "\<not> length (OwnerReferences pod) > 0"
    by blast
  then show ?case
  proof cases
    case skip
    then have "?d pod = Skip" by (simp add: resumePod_disposition_def)
    with Cons.prems have "perform ?d items w = Some w'" by simp
    from Cons.IH[OF this] skip show ?thesis by simp
  next
    case owned
    then have d: "?d pod = Remove" by (simp add: resumePod_disposition_def)
    obtain e w1 where rc: "clientDeletePod pod w = (e, w1)" by force
    with Cons.prems d have "e = None \<and> perform ?d items w1 = Some w'"
      by (cases e) simp_all
    with Cons.IH[of w1] rc owned show ?thesis by simp
  next
    case unowned
    then have d: "?d pod = Replace (resumeClone c pod)" by (simp add: resumePod_disposition_def)
    obtain r1 w1 where rc: "recreatePod pod (resumeClone c pod) w = (r1, w1)" by force
    with Cons.prems d have "r1 = ReturnNil \<and> perform ?d items w1 = Some w'"
      by (cases r1) simp_all
    with Cons.IH[of w1] rc unowned show ?thesis by simp
  qed
qed

lemma suspend_replaced:
  "replaced (suspendOrphanPod_disposition c) items = filter (orphan c) items"
  "clones (suspendOrphanPod_disposition c) items = map (suspendClone c) (filter (orphan c) items)"
  by (induction items) (auto simp: suspendOrphanPod_disposition_def orphan_def)

lemma delete_replaced:
  "replaced (deleteControlledPod_disposition c) items = []"
  "clones (deleteControlledPod_disposition c) items = []"
  by (induction items) (auto simp: deleteControlledPod_disposition_def)

lemma resume_replaced:
  "replaced (resumePod_disposition c) items = filter (\<lambda>p. parked c p \<and> OwnerReferences p = []) items"
  "clones (resumePod_disposition c) items =
     map (resumeClone c) (filter (\<lambda>p. parked c p \<and> OwnerReferences p = []) items)"
  by (induction items) (auto simp: resumePod_disposition_def parked_def)

lemma clientListPods_served:
  "faults w = [] \<Longrightarrow>
   clientListPods n w = (Inr (filter (\<lambda>p. Namespace p = n) (pods w)), w\<lparr>calls := calls w @ [ListPods n]\<rparr>)"
  by (simp add: clientListPods_def request_def)

lemma key_suspendClone: "key (suspendClone c p) = key p"
  by (simp add: key_def suspendClone_fields)

lemma key_resumeClone: "key (resumeClone c p) = key p"
  by (simp add: key_def resumeClone_fields)

lemma suspendOrphanPod_served:
  assumes "faults w = []" and "distinct (map key (pods w))"
    and "confirming (filter (\<lambda>p. Namespace p = n \<and> orphan c p) (pods w)) (feeds w)"
  shows "\<exists>cs. suspendOrphanPod c n w =
     (ReturnNil,
      w\<lparr>pods := filter (\<lambda>p. \<not> (Namespace p = n \<and> orphan c p)) (pods w) @
           map (\<lambda>p. admit w (suspendClone c p)) (filter (\<lambda>p. Namespace p = n \<and> orphan c p) (pods w)),
        feeds := drop (length (filter (\<lambda>p. Namespace p = n \<and> orphan c p) (pods w))) (feeds w),
        calls := calls w @ cs\<rparr>) \<and>
     distinct (map key (filter (\<lambda>p. \<not> (Namespace p = n \<and> orphan c p)) (pods w) @
           map (\<lambda>p. admit w (suspendClone c p)) (filter (\<lambda>p. Namespace p = n \<and> orphan c p) (pods w)))) \<and>
     createdPods cs = map (suspendClone c) (filter (\<lambda>p. Namespace p = n \<and> orphan c p) (pods w)) \<and>
     deletedPods cs = filter (\<lambda>p. Namespace p = n \<and> orphan c p) (pods w)"
proof -
  let ?d = "suspendOrphanPod_disposition c"
  let ?items = "filter (\<lambda>p. Namespace p = n) (pods w)"
  let ?w1 = "w\<lparr>calls := calls w @ [ListPods n]\<rparr>"
  have l: "clientListPods n w = (Inr ?items, ?w1)" using assms(1) by (rule clientListPods_served)
  have fo: "filter (orphan c) ?items = filter (\<lambda>p. Namespace p = n \<and> orphan c p) (pods w)"
    by simp
  have k: "filter (kept ?d ?items) (pods w) = filter (\<lambda>p. \<not> (Namespace p = n \<and> orphan c p)) (pods w)"
    by (intro filter_cong) (auto simp: kept_def suspendOrphanPod_disposition_def orphan_def)
  have m: "map (admit w) (map (suspendClone c) (filter (\<lambda>p. Namespace p = n \<and> orphan c p) (pods w))) =
     map (\<lambda>p. admit w (suspendClone c p)) (filter (\<lambda>p. Namespace p = n \<and> orphan c p) (pods w))"
    by simp
  have "\<exists>cs. perform ?d ?items ?w1 =
     Some (?w1\<lparr>pods := filter (kept ?d ?items) (pods ?w1) @ map (admit ?w1) (clones ?d ?items),
            feeds := drop (length (replaced ?d ?items)) (feeds ?w1), calls := calls ?w1 @ cs\<rparr>) \<and>
     distinct (map key (filter (kept ?d ?items) (pods ?w1) @ map (admit ?w1) (clones ?d ?items))) \<and>
     createdPods cs = clones ?d ?items \<and> deletedPods cs = filter (\<lambda>p. ?d p \<noteq> Skip) ?items"
  proof (rule perform_served)
    show "confirming (replaced ?d ?items) (feeds ?w1)"
      using assms(3) by (simp add: suspend_replaced)
    show "distinct (map key ?items)" using assms(2) by (rule distinct_map_filter)
    show "\<forall>p \<in> set ?items. \<forall>cl. ?d p = Replace cl \<longrightarrow> key cl = key p \<and> ResourceVersion cl = []"
      by (auto simp: suspendOrphanPod_disposition_def key_suspendClone suspendClone_fields split: if_splits)
  qed (use assms in simp_all)
  then obtain cs where
    run: "perform ?d ?items ?w1 =
     Some (?w1\<lparr>pods := filter (kept ?d ?items) (pods ?w1) @ map (admit ?w1) (clones ?d ?items),
            feeds := drop (length (replaced ?d ?items)) (feeds ?w1), calls := calls ?w1 @ cs\<rparr>)"
    and dist: "distinct (map key (filter (kept ?d ?items) (pods ?w1) @ map (admit ?w1) (clones ?d ?items)))"
    and cd: "createdPods cs = clones ?d ?items" "deletedPods cs = filter (\<lambda>p. ?d p \<noteq> Skip) ?items"
    by blast
  have p1: "pods ?w1 = pods w" "feeds ?w1 = feeds w" by simp_all
  have adm: "admit ?w1 = admit w" by (auto simp: admit_def)
  have w1: "\<And>P F. ?w1\<lparr>pods := P, feeds := F, calls := calls ?w1 @ cs\<rparr> =
      w\<lparr>pods := P, feeds := F, calls := calls w @ (ListPods n # cs)\<rparr>" by simp
  note run' = run[unfolded p1 adm suspend_replaced fo k m w1]
  note dist' = dist[unfolded p1 adm suspend_replaced fo k m]
  have fd: "filter (\<lambda>p. Namespace p = n \<and> ?d p \<noteq> Skip) (pods w) = filter (\<lambda>p. Namespace p = n \<and> orphan c p) (pods w)"
    by (auto simp: suspendOrphanPod_disposition_def orphan_def intro!: filter_cong)
  have cd': "createdPods (ListPods n # cs) = map (suspendClone c) (filter (\<lambda>p. Namespace p = n \<and> orphan c p) (pods w))"
    "deletedPods (ListPods n # cs) = filter (\<lambda>p. Namespace p = n \<and> orphan c p) (pods w)"
    using cd by (simp_all add: suspend_replaced fd)
  have "suspendOrphanPod c n w = suspendOrphanPod_items c ?items ?w1"
    using l by (simp add: suspendOrphanPod_def)
  with perform_suspendOrphanPod_items[OF run'] have "suspendOrphanPod c n w =
     (ReturnNil,
      w\<lparr>pods := filter (\<lambda>p. \<not> (Namespace p = n \<and> orphan c p)) (pods w) @
           map (\<lambda>p. admit w (suspendClone c p)) (filter (\<lambda>p. Namespace p = n \<and> orphan c p) (pods w)),
        feeds := drop (length (filter (\<lambda>p. Namespace p = n \<and> orphan c p) (pods w))) (feeds w),
        calls := calls w @ (ListPods n # cs)\<rparr>)"
    by (simp only:)
  with dist' cd' show ?thesis by blast
qed


lemma deleteControlledPod_served:
  assumes "faults w = []" and "distinct (map key (pods w))"
  shows "\<exists>cs. deleteControlledPod c n w =
     (ReturnNil,
      w\<lparr>pods := filter (\<lambda>p. \<not> (Namespace p = n \<and> controlled c p)) (pods w),
        calls := calls w @ cs\<rparr>) \<and>
     createdPods cs = [] \<and>
     deletedPods cs = filter (\<lambda>p. Namespace p = n \<and> controlled c p) (pods w)"
proof -
  let ?d = "deleteControlledPod_disposition c"
  let ?items = "filter (\<lambda>p. Namespace p = n) (pods w)"
  let ?w1 = "w\<lparr>calls := calls w @ [ListPods n]\<rparr>"
  have l: "clientListPods n w = (Inr ?items, ?w1)" using assms(1) by (rule clientListPods_served)
  have k: "filter (kept ?d ?items) (pods w) = filter (\<lambda>p. \<not> (Namespace p = n \<and> controlled c p)) (pods w)"
    by (intro filter_cong) (auto simp: kept_def deleteControlledPod_disposition_def controlled_def)
  have "\<exists>cs. perform ?d ?items ?w1 =
     Some (?w1\<lparr>pods := filter (kept ?d ?items) (pods ?w1) @ map (admit ?w1) (clones ?d ?items),
            feeds := drop (length (replaced ?d ?items)) (feeds ?w1), calls := calls ?w1 @ cs\<rparr>) \<and>
     distinct (map key (filter (kept ?d ?items) (pods ?w1) @ map (admit ?w1) (clones ?d ?items))) \<and>
     createdPods cs = clones ?d ?items \<and> deletedPods cs = filter (\<lambda>p. ?d p \<noteq> Skip) ?items"
  proof (rule perform_served)
    show "confirming (replaced ?d ?items) (feeds ?w1)"
      by (simp add: delete_replaced)
    show "distinct (map key ?items)" using assms(2) by (rule distinct_map_filter)
    show "\<forall>p \<in> set ?items. \<forall>cl. ?d p = Replace cl \<longrightarrow> key cl = key p \<and> ResourceVersion cl = []"
      by (auto simp: deleteControlledPod_disposition_def split: if_splits)
  qed (use assms in simp_all)
  then obtain cs where
    run: "perform ?d ?items ?w1 =
     Some (?w1\<lparr>pods := filter (kept ?d ?items) (pods ?w1) @ map (admit ?w1) (clones ?d ?items),
            feeds := drop (length (replaced ?d ?items)) (feeds ?w1), calls := calls ?w1 @ cs\<rparr>)"
    and cd: "createdPods cs = clones ?d ?items" "deletedPods cs = filter (\<lambda>p. ?d p \<noteq> Skip) ?items"
    by blast
  have fd: "filter (\<lambda>p. Namespace p = n \<and> ?d p \<noteq> Skip) (pods w) = filter (\<lambda>p. Namespace p = n \<and> controlled c p) (pods w)"
    by (auto simp: deleteControlledPod_disposition_def controlled_def intro!: filter_cong)
  have cd': "createdPods (ListPods n # cs) = []"
    "deletedPods (ListPods n # cs) = filter (\<lambda>p. Namespace p = n \<and> controlled c p) (pods w)"
    using cd by (simp_all add: delete_replaced fd)
  have p1: "pods ?w1 = pods w" "feeds ?w1 = feeds w" by simp_all
  have w1: "\<And>P. ?w1\<lparr>pods := P @ map (admit ?w1) [], feeds := drop (length ([]::Pod list)) (feeds w),
        calls := calls ?w1 @ cs\<rparr> =
      w\<lparr>pods := P, calls := calls w @ (ListPods n # cs)\<rparr>" by simp
  note run' = run[unfolded p1 delete_replaced k w1]
  have "deleteControlledPod c n w = deleteControlledPod_items c ?items ?w1"
    using l by (simp add: deleteControlledPod_def)
  with perform_deleteControlledPod_items[OF run'] have "deleteControlledPod c n w =
     (ReturnNil,
      w\<lparr>pods := filter (\<lambda>p. \<not> (Namespace p = n \<and> controlled c p)) (pods w),
        calls := calls w @ (ListPods n # cs)\<rparr>)"
    by (simp only:)
  with cd' show ?thesis by blast
qed

lemma resumePod_served:
  assumes "faults w = []" and "distinct (map key (pods w))"
    and "confirming (filter (\<lambda>p. Namespace p = n \<and> parked c p \<and> OwnerReferences p = []) (pods w)) (feeds w)"
  shows "\<exists>cs. resumePod c n w =
     (ReturnNil,
      w\<lparr>pods := filter (\<lambda>p. \<not> (Namespace p = n \<and> parked c p)) (pods w) @
           map (\<lambda>p. admit w (resumeClone c p))
             (filter (\<lambda>p. Namespace p = n \<and> parked c p \<and> OwnerReferences p = []) (pods w)),
        feeds := drop (length (filter (\<lambda>p. Namespace p = n \<and> parked c p \<and> OwnerReferences p = []) (pods w))) (feeds w),
        calls := calls w @ cs\<rparr>) \<and>
     createdPods cs = map (resumeClone c)
       (filter (\<lambda>p. Namespace p = n \<and> parked c p \<and> OwnerReferences p = []) (pods w)) \<and>
     deletedPods cs = filter (\<lambda>p. Namespace p = n \<and> parked c p) (pods w)"
proof -
  let ?d = "resumePod_disposition c"
  let ?items = "filter (\<lambda>p. Namespace p = n) (pods w)"
  let ?sel = "filter (\<lambda>p. Namespace p = n \<and> parked c p \<and> OwnerReferences p = []) (pods w)"
  let ?w1 = "w\<lparr>calls := calls w @ [ListPods n]\<rparr>"
  have l: "clientListPods n w = (Inr ?items, ?w1)" using assms(1) by (rule clientListPods_served)
  have fo: "filter (\<lambda>p. parked c p \<and> OwnerReferences p = []) ?items = ?sel"
    by simp
  have k: "filter (kept ?d ?items) (pods w) = filter (\<lambda>p. \<not> (Namespace p = n \<and> parked c p)) (pods w)"
    by (intro filter_cong) (auto simp: kept_def resumePod_disposition_def parked_def)
  have m: "map (admit w) (map (resumeClone c) ?sel) = map (\<lambda>p. admit w (resumeClone c p)) ?sel"
    by simp
  have "\<exists>cs. perform ?d ?items ?w1 =
     Some (?w1\<lparr>pods := filter (kept ?d ?items) (pods ?w1) @ map (admit ?w1) (clones ?d ?items),
            feeds := drop (length (replaced ?d ?items)) (feeds ?w1), calls := calls ?w1 @ cs\<rparr>) \<and>
     distinct (map key (filter (kept ?d ?items) (pods ?w1) @ map (admit ?w1) (clones ?d ?items))) \<and>
     createdPods cs = clones ?d ?items \<and> deletedPods cs = filter (\<lambda>p. ?d p \<noteq> Skip) ?items"
  proof (rule perform_served)
    show "confirming (replaced ?d ?items) (feeds ?w1)"
      using assms(3) by (simp add: resume_replaced)
    show "distinct (map key ?items)" using assms(2) by (rule distinct_map_filter)
    show "\<forall>p \<in> set ?items. \<forall>cl. ?d p = Replace cl \<longrightarrow> key cl = key p \<and> ResourceVersion cl = []"
      by (auto simp: resumePod_disposition_def key_resumeClone resumeClone_fields split: if_splits)
  qed (use assms in simp_all)
  then obtain cs where
    run: "perform ?d ?items ?w1 =
     Some (?w1\<lparr>pods := filter (kept ?d ?items) (pods ?w1) @ map (admit ?w1) (clones ?d ?items),
            feeds := drop (length (replaced ?d ?items)) (feeds ?w1), calls := calls ?w1 @ cs\<rparr>)"
    and cd: "createdPods cs = clones ?d ?items" "deletedPods cs = filter (\<lambda>p. ?d p \<noteq> Skip) ?items"
    by blast
  have fd: "filter (\<lambda>p. Namespace p = n \<and> ?d p \<noteq> Skip) (pods w) = filter (\<lambda>p. Namespace p = n \<and> parked c p) (pods w)"
    by (auto simp: resumePod_disposition_def parked_def intro!: filter_cong)
  have cd': "createdPods (ListPods n # cs) = map (resumeClone c) ?sel"
    "deletedPods (ListPods n # cs) = filter (\<lambda>p. Namespace p = n \<and> parked c p) (pods w)"
    using cd by (simp_all add: resume_replaced fd)
  have p1: "pods ?w1 = pods w" "feeds ?w1 = feeds w" by simp_all
  have adm: "admit ?w1 = admit w" by (auto simp: admit_def)
  have w1: "\<And>P F. ?w1\<lparr>pods := P, feeds := F, calls := calls ?w1 @ cs\<rparr> =
      w\<lparr>pods := P, feeds := F, calls := calls w @ (ListPods n # cs)\<rparr>" by simp
  note run' = run[unfolded p1 adm resume_replaced fo k m w1]
  have "resumePod c n w = resumePod_items c ?items ?w1"
    using l by (simp add: resumePod_def)
  with perform_resumePod_items[OF run'] have "resumePod c n w =
     (ReturnNil,
      w\<lparr>pods := filter (\<lambda>p. \<not> (Namespace p = n \<and> parked c p)) (pods w) @
           map (\<lambda>p. admit w (resumeClone c p)) ?sel,
        feeds := drop (length ?sel) (feeds w),
        calls := calls w @ (ListPods n # cs)\<rparr>)"
    by (simp only:)
  with cd' show ?thesis by blast
qed

lemma runPipelines_three:
  "runPipelines [f, g, h] n w =
     (case f n w of
        (ReturnNil, w1) \<Rightarrow>
          (case g n w1 of
             (ReturnNil, w2) \<Rightarrow> h n w2
           | (ReturnErr e, w2) \<Rightarrow> (ReturnErr e, w2)
           | (Blocks, w2) \<Rightarrow> (Blocks, w2))
      | (ReturnErr e, w1) \<Rightarrow> (ReturnErr e, w1)
      | (Blocks, w1) \<Rightarrow> (Blocks, w1))"
  by (auto split: prod.splits outcome.splits)

lemma not_controlled_suspendClone: "\<not> controlled c (admit w (suspendClone c p))"
  by (simp add: controlled_def admit_def suspendClone_fields)

lemma limitResourceQuotaCreate_served_world:
  assumes "faults w = []"
  shows "limitResourceQuotaCreate n w =
     (ReturnNil,
      w\<lparr>quotas := (if \<exists>q \<in> set (quotas w). sameKey q (GetLimit0ResourceQuota n) then quotas w
                    else quotas w @ [GetLimit0ResourceQuota n]),
        calls := calls w @ GetQuota n ''debt-limit0'' #
          (if \<exists>q \<in> set (quotas w). sameKey q (GetLimit0ResourceQuota n) then []
           else [CreateQuota (GetLimit0ResourceQuota n)])\<rparr>)"
  using limitResourceQuotaCreate_served[OF assms, of n] by simp

lemma SuspendUserResource_served:
  assumes "faults w = []" and "distinct (map key (pods w))"
    and "confirming (filter (\<lambda>p. Namespace p = n \<and> orphan c p) (pods w)) (feeds w)"
  shows "\<exists>cs1 cs2 cs3 P1 F Q.
     suspendOrphanPod c n w = (ReturnNil, w\<lparr>pods := P1, feeds := F, calls := calls w @ cs1\<rparr>) \<and>
     limitResourceQuotaCreate n (w\<lparr>pods := P1, feeds := F, calls := calls w @ cs1\<rparr>) =
       (ReturnNil, w\<lparr>pods := P1, quotas := Q, feeds := F, calls := (calls w @ cs1) @ cs2\<rparr>) \<and>
     deleteControlledPod c n (w\<lparr>pods := P1, quotas := Q, feeds := F, calls := (calls w @ cs1) @ cs2\<rparr>) =
       (ReturnNil,
        w\<lparr>pods := filter (\<lambda>p. Namespace p \<noteq> n \<or> SchedulerName (Spec p) = DebtSchedulerName c) (pods w) @
             map (\<lambda>p. admit w (suspendClone c p)) (filter (\<lambda>p. Namespace p = n \<and> orphan c p) (pods w)),
          quotas := Q, feeds := F, calls := ((calls w @ cs1) @ cs2) @ cs3\<rparr>) \<and>
     SuspendUserResource c n w =
       (ReturnNil,
        w\<lparr>pods := filter (\<lambda>p. Namespace p \<noteq> n \<or> SchedulerName (Spec p) = DebtSchedulerName c) (pods w) @
             map (\<lambda>p. admit w (suspendClone c p)) (filter (\<lambda>p. Namespace p = n \<and> orphan c p) (pods w)),
          quotas := Q, feeds := F, calls := ((calls w @ cs1) @ cs2) @ cs3\<rparr>) \<and>
     F = drop (length (filter (\<lambda>p. Namespace p = n \<and> orphan c p) (pods w))) (feeds w) \<and>
     Q = (if \<exists>q \<in> set (quotas w). sameKey q (GetLimit0ResourceQuota n) then quotas w
          else quotas w @ [GetLimit0ResourceQuota n]) \<and>
     deletedPods cs1 = filter (\<lambda>p. Namespace p = n \<and> orphan c p) (pods w) \<and>
     createdPods cs1 = map (suspendClone c) (filter (\<lambda>p. Namespace p = n \<and> orphan c p) (pods w)) \<and>
     list_all quotaCall cs2 \<and>
     deletedPods cs3 = filter (\<lambda>p. Namespace p = n \<and> controlled c p) (pods w) \<and>
     createdPods cs3 = [] \<and>
     distinct (map key (filter (\<lambda>p. Namespace p \<noteq> n \<or> SchedulerName (Spec p) = DebtSchedulerName c) (pods w) @
             map (\<lambda>p. admit w (suspendClone c p)) (filter (\<lambda>p. Namespace p = n \<and> orphan c p) (pods w))))"
proof -
  let ?orph = "filter (\<lambda>p. Namespace p = n \<and> orphan c p) (pods w)"
  let ?P1 = "filter (\<lambda>p. \<not> (Namespace p = n \<and> orphan c p)) (pods w) @
           map (\<lambda>p. admit w (suspendClone c p)) ?orph"
  let ?P3 = "filter (\<lambda>p. Namespace p \<noteq> n \<or> SchedulerName (Spec p) = DebtSchedulerName c) (pods w) @
             map (\<lambda>p. admit w (suspendClone c p)) ?orph"
  let ?F = "drop (length ?orph) (feeds w)"
  let ?Q = "if \<exists>q \<in> set (quotas w). sameKey q (GetLimit0ResourceQuota n) then quotas w
          else quotas w @ [GetLimit0ResourceQuota n]"
  let ?cs2 = "GetQuota n ''debt-limit0'' #
          (if \<exists>q \<in> set (quotas w). sameKey q (GetLimit0ResourceQuota n) then []
           else [CreateQuota (GetLimit0ResourceQuota n)])"
  from assms suspendOrphanPod_served[of w n c] obtain cs1 where
    s1: "suspendOrphanPod c n w = (ReturnNil, w\<lparr>pods := ?P1, feeds := ?F, calls := calls w @ cs1\<rparr>)"
    and d1: "distinct (map key ?P1)"
    and c1: "createdPods cs1 = map (suspendClone c) ?orph" "deletedPods cs1 = ?orph"
    by blast
  let ?w1 = "w\<lparr>pods := ?P1, feeds := ?F, calls := calls w @ cs1\<rparr>"
  let ?w2 = "w\<lparr>pods := ?P1, quotas := ?Q, feeds := ?F, calls := (calls w @ cs1) @ ?cs2\<rparr>"
  have f1: "faults ?w1 = []" using assms(1) by simp
  have s2: "limitResourceQuotaCreate n ?w1 = (ReturnNil, ?w2)"
    using limitResourceQuotaCreate_served_world[OF f1, of n] by simp
  have q2: "list_all quotaCall ?cs2" by (simp add: quotaCall_def)
  have f2: "faults ?w2 = []" using assms(1) by simp
  have d2: "distinct (map key (pods ?w2))" using d1 by simp
  from deleteControlledPod_served[OF f2 d2, of c n] obtain cs3 where
    s3: "deleteControlledPod c n ?w2 =
       (ReturnNil, ?w2\<lparr>pods := filter (\<lambda>p. \<not> (Namespace p = n \<and> controlled c p)) (pods ?w2),
          calls := calls ?w2 @ cs3\<rparr>)"
    and c3: "createdPods cs3 = []"
       "deletedPods cs3 = filter (\<lambda>p. Namespace p = n \<and> controlled c p) (pods ?w2)"
    by blast
  have nc: "\<And>p. \<not> controlled c (admit w (suspendClone c p))"
    by (rule not_controlled_suspendClone)
  have del3: "filter (\<lambda>p. Namespace p = n \<and> controlled c p) (pods ?w2) =
     filter (\<lambda>p. Namespace p = n \<and> controlled c p) (pods w)"
    using nc by (auto simp: filter_empty_conv controlled_def orphan_def intro!: filter_cong)
  have keep3: "filter (\<lambda>p. \<not> (Namespace p = n \<and> controlled c p)) (pods ?w2) = ?P3"
    using nc by (auto simp: filter_id_conv controlled_def orphan_def intro!: filter_cong)
  have w3: "?w2\<lparr>pods := ?P3, calls := calls ?w2 @ cs3\<rparr> =
     w\<lparr>pods := ?P3, quotas := ?Q, feeds := ?F, calls := ((calls w @ cs1) @ ?cs2) @ cs3\<rparr>"
    by simp
  note s3' = s3[unfolded keep3 w3]
  have all: "SuspendUserResource c n w =
     (ReturnNil, w\<lparr>pods := ?P3, quotas := ?Q, feeds := ?F, calls := ((calls w @ cs1) @ ?cs2) @ cs3\<rparr>)"
    using s1 s2 s3' by (simp add: SuspendUserResource_def runPipelines_three del: runPipelines.simps)
  have d3: "distinct (map key ?P3)"
  proof -
    have "distinct (map key (filter (\<lambda>p. \<not> (Namespace p = n \<and> controlled c p)) (pods ?w2)))"
      using d2 by (rule distinct_map_filter)
    from this[unfolded keep3] show ?thesis .
  qed
  show ?thesis
    using s1 s2 s3' all c1 q2 c3(1) c3(2)[unfolded del3] d3 by blast
qed

subsection \<open>The suspend pipeline\<close>

text \<open>
  Claim C5, amended. \<open>SuspendUserResource\<close> runs \<open>suspendOrphanPod\<close>, then
  \<open>limitResourceQuotaCreate\<close>, then \<open>deleteControlledPod\<close>, each on the state the
  stage before left; the first stage that does not return nil ends the pipeline with its
  result and its state. On a platform that serves every request and confirms each deletion
  on the watch opened for it, all three stages return nil; the first deletes every pod of
  the namespace that has no owner reference and does not carry the reserved scheduler name,
  and creates its clone; the second issues quota calls only, after which the record
  \<open>debt-limit0\<close> is there; the third deletes every pod of the namespace that has an owner
  reference and does not carry the reserved scheduler name, and creates nothing. Pods of
  the namespace that carry the reserved scheduler name, managed or not, are left alone.
\<close>

theorem SuspendUserResource_stages:
  "SuspendUserResource c n w =
     (case suspendOrphanPod c n w of
        (ReturnNil, w1) \<Rightarrow>
          (case limitResourceQuotaCreate n w1 of
             (ReturnNil, w2) \<Rightarrow> deleteControlledPod c n w2
           | (ReturnErr e, w2) \<Rightarrow> (ReturnErr e, w2)
           | (Blocks, w2) \<Rightarrow> (Blocks, w2))
      | (ReturnErr e, w1) \<Rightarrow> (ReturnErr e, w1)
      | (Blocks, w1) \<Rightarrow> (Blocks, w1)) \<and>
   (faults w = [] \<and> distinct (map key (pods w)) \<and>
    confirming (filter (\<lambda>p. Namespace p = n \<and> orphan c p) (pods w)) (feeds w) \<longrightarrow>
      (\<exists>w1 w2 w3 cs1 cs2 cs3.
         suspendOrphanPod c n w = (ReturnNil, w1) \<and>
         limitResourceQuotaCreate n w1 = (ReturnNil, w2) \<and>
         deleteControlledPod c n w2 = (ReturnNil, w3) \<and>
         SuspendUserResource c n w = (ReturnNil, w3) \<and>
         calls w1 = calls w @ cs1 \<and> calls w2 = calls w1 @ cs2 \<and> calls w3 = calls w2 @ cs3 \<and>
         deletedPods cs1 = filter (\<lambda>p. Namespace p = n \<and> orphan c p) (pods w) \<and>
         createdPods cs1 = map (suspendClone c) (filter (\<lambda>p. Namespace p = n \<and> orphan c p) (pods w)) \<and>
         list_all quotaCall cs2 \<and>
         deletedPods cs3 = filter (\<lambda>p. Namespace p = n \<and> controlled c p) (pods w) \<and>
         createdPods cs3 = [] \<and>
         pods w3 =
           filter (\<lambda>p. Namespace p \<noteq> n \<or> SchedulerName (Spec p) = DebtSchedulerName c) (pods w) @
           map (\<lambda>p. admit w (suspendClone c p)) (filter (\<lambda>p. Namespace p = n \<and> orphan c p) (pods w)) \<and>
         (\<exists>q \<in> set (quotas w3). sameKey q (GetLimit0ResourceQuota n))))"
proof (intro conjI impI)
  show "SuspendUserResource c n w =
     (case suspendOrphanPod c n w of
        (ReturnNil, w1) \<Rightarrow>
          (case limitResourceQuotaCreate n w1 of
             (ReturnNil, w2) \<Rightarrow> deleteControlledPod c n w2
           | (ReturnErr e, w2) \<Rightarrow> (ReturnErr e, w2)
           | (Blocks, w2) \<Rightarrow> (Blocks, w2))
      | (ReturnErr e, w1) \<Rightarrow> (ReturnErr e, w1)
      | (Blocks, w1) \<Rightarrow> (Blocks, w1))"
    unfolding SuspendUserResource_def by (rule runPipelines_three)
next
  assume a: "faults w = [] \<and> distinct (map key (pods w)) \<and>
    confirming (filter (\<lambda>p. Namespace p = n \<and> orphan c p) (pods w)) (feeds w)"
  from a SuspendUserResource_served[of w n c] obtain cs1 cs2 cs3 P1 F Q where
    s: "suspendOrphanPod c n w = (ReturnNil, w\<lparr>pods := P1, feeds := F, calls := calls w @ cs1\<rparr>)"
       "limitResourceQuotaCreate n (w\<lparr>pods := P1, feeds := F, calls := calls w @ cs1\<rparr>) =
         (ReturnNil, w\<lparr>pods := P1, quotas := Q, feeds := F, calls := (calls w @ cs1) @ cs2\<rparr>)"
       "deleteControlledPod c n (w\<lparr>pods := P1, quotas := Q, feeds := F, calls := (calls w @ cs1) @ cs2\<rparr>) =
         (ReturnNil,
          w\<lparr>pods := filter (\<lambda>p. Namespace p \<noteq> n \<or> SchedulerName (Spec p) = DebtSchedulerName c) (pods w) @
             map (\<lambda>p. admit w (suspendClone c p)) (filter (\<lambda>p. Namespace p = n \<and> orphan c p) (pods w)),
            quotas := Q, feeds := F, calls := ((calls w @ cs1) @ cs2) @ cs3\<rparr>)"
       "SuspendUserResource c n w =
         (ReturnNil,
          w\<lparr>pods := filter (\<lambda>p. Namespace p \<noteq> n \<or> SchedulerName (Spec p) = DebtSchedulerName c) (pods w) @
             map (\<lambda>p. admit w (suspendClone c p)) (filter (\<lambda>p. Namespace p = n \<and> orphan c p) (pods w)),
            quotas := Q, feeds := F, calls := ((calls w @ cs1) @ cs2) @ cs3\<rparr>)"
    and q: "Q = (if \<exists>q \<in> set (quotas w). sameKey q (GetLimit0ResourceQuota n) then quotas w
          else quotas w @ [GetLimit0ResourceQuota n])"
    and c: "deletedPods cs1 = filter (\<lambda>p. Namespace p = n \<and> orphan c p) (pods w)"
       "createdPods cs1 = map (suspendClone c) (filter (\<lambda>p. Namespace p = n \<and> orphan c p) (pods w))"
       "list_all quotaCall cs2"
       "deletedPods cs3 = filter (\<lambda>p. Namespace p = n \<and> controlled c p) (pods w)"
       "createdPods cs3 = []"
    by blast
  let ?w1 = "w\<lparr>pods := P1, feeds := F, calls := calls w @ cs1\<rparr>"
  let ?w2 = "w\<lparr>pods := P1, quotas := Q, feeds := F, calls := (calls w @ cs1) @ cs2\<rparr>"
  let ?w3 = "w\<lparr>pods := filter (\<lambda>p. Namespace p \<noteq> n \<or> SchedulerName (Spec p) = DebtSchedulerName c) (pods w) @
             map (\<lambda>p. admit w (suspendClone c p)) (filter (\<lambda>p. Namespace p = n \<and> orphan c p) (pods w)),
            quotas := Q, feeds := F, calls := ((calls w @ cs1) @ cs2) @ cs3\<rparr>"
  have "\<exists>q \<in> set (quotas ?w3). sameKey q (GetLimit0ResourceQuota n)"
    using q by (auto simp: sameKey_def)
  moreover have "calls ?w1 = calls w @ cs1" "calls ?w2 = calls ?w1 @ cs2" "calls ?w3 = calls ?w2 @ cs3"
    "pods ?w3 = filter (\<lambda>p. Namespace p \<noteq> n \<or> SchedulerName (Spec p) = DebtSchedulerName c) (pods w) @
             map (\<lambda>p. admit w (suspendClone c p)) (filter (\<lambda>p. Namespace p = n \<and> orphan c p) (pods w))"
    by simp_all
  moreover note s c
  ultimately show "\<exists>w1 w2 w3 cs1 cs2 cs3.
         suspendOrphanPod c n w = (ReturnNil, w1) \<and>
         limitResourceQuotaCreate n w1 = (ReturnNil, w2) \<and>
         deleteControlledPod c n w2 = (ReturnNil, w3) \<and>
         SuspendUserResource c n w = (ReturnNil, w3) \<and>
         calls w1 = calls w @ cs1 \<and> calls w2 = calls w1 @ cs2 \<and> calls w3 = calls w2 @ cs3 \<and>
         deletedPods cs1 = filter (\<lambda>p. Namespace p = n \<and> orphan c p) (pods w) \<and>
         createdPods cs1 = map (suspendClone c) (filter (\<lambda>p. Namespace p = n \<and> orphan c p) (pods w)) \<and>
         list_all quotaCall cs2 \<and>
         deletedPods cs3 = filter (\<lambda>p. Namespace p = n \<and> controlled c p) (pods w) \<and>
         createdPods cs3 = [] \<and>
         pods w3 =
           filter (\<lambda>p. Namespace p \<noteq> n \<or> SchedulerName (Spec p) = DebtSchedulerName c) (pods w) @
           map (\<lambda>p. admit w (suspendClone c p)) (filter (\<lambda>p. Namespace p = n \<and> orphan c p) (pods w)) \<and>
         (\<exists>q \<in> set (quotas w3). sameKey q (GetLimit0ResourceQuota n))"
    by blast
qed


theorem SuspendUserResource_stages_witness:
  "faults (cluster1 ''Suspend'' ''Suspended'' [Ev (deletionOf podA) Closed]) = [] \<and>
   distinct (map key (pods (cluster1 ''Suspend'' ''Suspended'' [Ev (deletionOf podA) Closed]))) \<and>
   confirming (filter (\<lambda>p. Namespace p = ''ns-1'' \<and> orphan exampleV1 p)
       (pods (cluster1 ''Suspend'' ''Suspended'' [Ev (deletionOf podA) Closed])))
     (feeds (cluster1 ''Suspend'' ''Suspended'' [Ev (deletionOf podA) Closed])) \<and>
   SuspendUserResource exampleV1 ''ns-1'' (cluster1 ''Suspend'' ''Suspended'' [Ev (deletionOf podA) Closed]) =
     (ReturnNil,
      (cluster1 ''Suspend'' ''Suspended'' [])\<lparr>
        pods := [admit (cluster1 ''Suspend'' ''Suspended'' []) (suspendClone exampleV1 podA)],
        quotas := [GetLimit0ResourceQuota ''ns-1''],
        calls := [ListPods ''ns-1'', WatchPods, DeletePod podA, Received (deletionOf podA),
                  CreatePod (suspendClone exampleV1 podA), StopWatch,
                  GetQuota ''ns-1'' ''debt-limit0'', CreateQuota (GetLimit0ResourceQuota ''ns-1''),
                  ListPods ''ns-1'', DeletePod podB]\<rparr>)"
proof -
  let ?w = "cluster1 ''Suspend'' ''Suspended'' [Ev (deletionOf podA) Closed]"
  have h: "faults ?w = []" "distinct (map key (pods ?w))"
    "confirming (filter (\<lambda>p. Namespace p = ''ns-1'' \<and> orphan exampleV1 p) (pods ?w)) (feeds ?w)"
    by (simp_all add: cluster1_def key_def podA_def podB_def orphan_def exampleV1_def
        announces_def deletionOf_def)
  with SuspendUserResource_stages[of exampleV1 "''ns-1''" ?w]
  have "\<exists>w3. SuspendUserResource exampleV1 ''ns-1'' ?w = (ReturnNil, w3)" by blast
  moreover have "snd (SuspendUserResource exampleV1 ''ns-1'' ?w) =
      (cluster1 ''Suspend'' ''Suspended'' [])\<lparr>
        pods := [admit (cluster1 ''Suspend'' ''Suspended'' []) (suspendClone exampleV1 podA)],
        quotas := [GetLimit0ResourceQuota ''ns-1''],
        calls := [ListPods ''ns-1'', WatchPods, DeletePod podA, Received (deletionOf podA),
                  CreatePod (suspendClone exampleV1 podA), StopWatch,
                  GetQuota ''ns-1'' ''debt-limit0'', CreateQuota (GetLimit0ResourceQuota ''ns-1''),
                  ListPods ''ns-1'', DeletePod podB]\<rparr>"
    by (simp add: eval_defs)
  ultimately show ?thesis using h by auto
qed


text \<open>
  Claim C5 as first stated has the third stage delete every managed pod. A managed pod that
  carries the reserved scheduler name is passed over by the guard of \<open>deleteControlledPod\<close>
  (line 210): the pipeline returns nil and the pod is still there.
\<close>

theorem SuspendUserResource_deletes_every_managed_pod_counterexample:
  "OwnerReferences (podB\<lparr>Spec := \<lparr>NodeName = ''node-x'', SchedulerName = ''debt-scheduler''\<rparr>\<rparr>) \<noteq> [] \<and>
   Namespace (podB\<lparr>Spec := \<lparr>NodeName = ''node-x'', SchedulerName = ''debt-scheduler''\<rparr>\<rparr>) = ''ns-1'' \<and>
   SuspendUserResource exampleV1 ''ns-1''
     ((cluster1 ''Suspend'' [] [])\<lparr>pods :=
        [podB\<lparr>Spec := \<lparr>NodeName = ''node-x'', SchedulerName = ''debt-scheduler''\<rparr>\<rparr>]\<rparr>) =
     (ReturnNil,
      (cluster1 ''Suspend'' [] [])\<lparr>pods :=
        [podB\<lparr>Spec := \<lparr>NodeName = ''node-x'', SchedulerName = ''debt-scheduler''\<rparr>\<rparr>],
        quotas := [GetLimit0ResourceQuota ''ns-1''],
        calls := [ListPods ''ns-1'', GetQuota ''ns-1'' ''debt-limit0'',
                  CreateQuota (GetLimit0ResourceQuota ''ns-1''), ListPods ''ns-1'']\<rparr>)"
  by (simp add: eval_defs)

subsection \<open>The resume stage\<close>

lemma resumeClone_annotation:
  "lookup (Annotations (resumeClone c p)) (PreviousSchedulerName c) = None"
  by (simp add: resumeClone_def Let_def lookup_def delete_def split: option.splits)

text \<open>
  Claim C4, amended. On a platform that serves every request and confirms each deletion,
  \<open>resumePod\<close> returns nil and acts on the pods of the namespace that carry the reserved
  scheduler name and are in the suspended phase, and on no other: it deletes each of them;
  for those without owner reference it creates the clone, whose scheduler name is the value
  of the previous-scheduler annotation (empty when there is none) and which does not carry
  that annotation, and the cluster then holds the clone as the platform stored it in place
  of the pod; those with an owner reference are gone.
\<close>

theorem resumePod_acts_on_parked_pods:
  assumes "faults w = []" and "distinct (map key (pods w))"
    and "confirming (filter (\<lambda>p. Namespace p = n \<and> parked c p \<and> OwnerReferences p = []) (pods w)) (feeds w)"
  shows "\<exists>w' cs. resumePod c n w = (ReturnNil, w') \<and> calls w' = calls w @ cs \<and>
     deletedPods cs = filter (\<lambda>p. Namespace p = n \<and> parked c p) (pods w) \<and>
     createdPods cs = map (resumeClone c)
       (filter (\<lambda>p. Namespace p = n \<and> parked c p \<and> OwnerReferences p = []) (pods w)) \<and>
     pods w' = filter (\<lambda>p. \<not> (Namespace p = n \<and> parked c p)) (pods w) @
       map (\<lambda>p. admit w (resumeClone c p))
         (filter (\<lambda>p. Namespace p = n \<and> parked c p \<and> OwnerReferences p = []) (pods w)) \<and>
     (\<forall>p. SchedulerName (Spec (admit w (resumeClone c p))) =
            (case lookup (Annotations p) (PreviousSchedulerName c) of Some s \<Rightarrow> s | None \<Rightarrow> []) \<and>
          lookup (Annotations (admit w (resumeClone c p))) (PreviousSchedulerName c) = None \<and>
          SchedulerName (Spec (resumeClone c p)) = SchedulerName (Spec (admit w (resumeClone c p))) \<and>
          Annotations (resumeClone c p) = Annotations (admit w (resumeClone c p)))"
proof -
  let ?sel = "filter (\<lambda>p. Namespace p = n \<and> parked c p \<and> OwnerReferences p = []) (pods w)"
  let ?P = "filter (\<lambda>p. \<not> (Namespace p = n \<and> parked c p)) (pods w) @
       map (\<lambda>p. admit w (resumeClone c p)) ?sel"
  from resumePod_served[OF assms] obtain cs where
    r: "resumePod c n w =
      (ReturnNil, w\<lparr>pods := ?P, feeds := drop (length ?sel) (feeds w), calls := calls w @ cs\<rparr>)"
    and c: "createdPods cs = map (resumeClone c) ?sel"
       "deletedPods cs = filter (\<lambda>p. Namespace p = n \<and> parked c p) (pods w)"
    by blast
  let ?w' = "w\<lparr>pods := ?P, feeds := drop (length ?sel) (feeds w), calls := calls w @ cs\<rparr>"
  have "calls ?w' = calls w @ cs" "pods ?w' = ?P" by simp_all
  moreover have "\<forall>p. SchedulerName (Spec (admit w (resumeClone c p))) =
            (case lookup (Annotations p) (PreviousSchedulerName c) of Some s \<Rightarrow> s | None \<Rightarrow> []) \<and>
          lookup (Annotations (admit w (resumeClone c p))) (PreviousSchedulerName c) = None \<and>
          SchedulerName (Spec (resumeClone c p)) = SchedulerName (Spec (admit w (resumeClone c p))) \<and>
          Annotations (resumeClone c p) = Annotations (admit w (resumeClone c p))"
    using resumeClone_annotation[of c] by (simp add: admit_def resumeClone_fields)
  ultimately show ?thesis using r c by blast
qed

theorem resumePod_acts_on_parked_pods_witness:
  "faults ((cluster1 ''Resume'' ''Suspended'' [Ev (deletionOf podA) Closed])\<lparr>pods :=
      [admit (cluster1 ''Resume'' ''Suspended'' []) (suspendClone exampleV1 podA),
       podB\<lparr>Spec := \<lparr>NodeName = [], SchedulerName = ''debt-scheduler''\<rparr>,
            Status := PodStatus_zero\<lparr>Phase := ''Suspended''\<rparr>\<rparr>,
       podA\<lparr>Name := ''c''\<rparr>]\<rparr>) = [] \<and>
   resumePod exampleV1 ''ns-1''
     ((cluster1 ''Resume'' ''Suspended'' [Ev (deletionOf podA) Closed])\<lparr>pods :=
      [admit (cluster1 ''Resume'' ''Suspended'' []) (suspendClone exampleV1 podA),
       podB\<lparr>Spec := \<lparr>NodeName = [], SchedulerName = ''debt-scheduler''\<rparr>,
            Status := PodStatus_zero\<lparr>Phase := ''Suspended''\<rparr>\<rparr>,
       podA\<lparr>Name := ''c''\<rparr>]\<rparr>) =
     (ReturnNil,
      (cluster1 ''Resume'' ''Suspended'' [])\<lparr>pods :=
        [podA\<lparr>Name := ''c''\<rparr>,
         podA\<lparr>ResourceVersion := [], Annotations := Some Map.empty,
              Spec := \<lparr>NodeName = [], SchedulerName = ''default''\<rparr>,
              Status := PodStatus_zero\<lparr>Phase := ''Suspended''\<rparr>\<rparr>],
        calls := [ListPods ''ns-1'', WatchPods,
          DeletePod (admit (cluster1 ''Resume'' ''Suspended'' []) (suspendClone exampleV1 podA)),
          Received (deletionOf podA),
          CreatePod (resumeClone exampleV1 (admit (cluster1 ''Resume'' ''Suspended'' []) (suspendClone exampleV1 podA))),
          StopWatch,
          DeletePod (podB\<lparr>Spec := \<lparr>NodeName = [], SchedulerName = ''debt-scheduler''\<rparr>,
            Status := PodStatus_zero\<lparr>Phase := ''Suspended''\<rparr>\<rparr>)]\<rparr>)"
proof -
  let ?w = "(cluster1 ''Resume'' ''Suspended'' [Ev (deletionOf podA) Closed])\<lparr>pods :=
      [admit (cluster1 ''Resume'' ''Suspended'' []) (suspendClone exampleV1 podA),
       podB\<lparr>Spec := \<lparr>NodeName = [], SchedulerName = ''debt-scheduler''\<rparr>,
            Status := PodStatus_zero\<lparr>Phase := ''Suspended''\<rparr>\<rparr>,
       podA\<lparr>Name := ''c''\<rparr>]\<rparr>"
  have h: "faults ?w = []" "distinct (map key (pods ?w))"
    "confirming (filter (\<lambda>p. Namespace p = ''ns-1'' \<and> parked exampleV1 p \<and> OwnerReferences p = []) (pods ?w)) (feeds ?w)"
    by (simp_all add: cluster1_def key_def podA_def podB_def parked_def exampleV1_def
        announces_def deletionOf_def admit_def suspendClone_def Let_def PodStatus_zero_def)
  from resumePod_acts_on_parked_pods[OF h]
  have "\<exists>w'. resumePod exampleV1 ''ns-1'' ?w = (ReturnNil, w')" by blast
  moreover have "snd (resumePod exampleV1 ''ns-1'' ?w) =
      (cluster1 ''Resume'' ''Suspended'' [])\<lparr>pods :=
        [podA\<lparr>Name := ''c''\<rparr>,
         podA\<lparr>ResourceVersion := [], Annotations := Some Map.empty,
              Spec := \<lparr>NodeName = [], SchedulerName = ''default''\<rparr>,
              Status := PodStatus_zero\<lparr>Phase := ''Suspended''\<rparr>\<rparr>],
        calls := [ListPods ''ns-1'', WatchPods,
          DeletePod (admit (cluster1 ''Resume'' ''Suspended'' []) (suspendClone exampleV1 podA)),
          Received (deletionOf podA),
          CreatePod (resumeClone exampleV1 (admit (cluster1 ''Resume'' ''Suspended'' []) (suspendClone exampleV1 podA))),
          StopWatch,
          DeletePod (podB\<lparr>Spec := \<lparr>NodeName = [], SchedulerName = ''debt-scheduler''\<rparr>,
            Status := PodStatus_zero\<lparr>Phase := ''Suspended''\<rparr>\<rparr>)]\<rparr>"
    by (simp add: eval_defs)
  ultimately show ?thesis using h(1) by auto
qed


text \<open>
  Claim C4 as first stated has the resume stage act on every pod that carries the reserved
  scheduler name. The guard of the loop (line 231) also asks for the suspended phase: the
  clone as \<open>suspendOrphanPod\<close> submitted it, with the status cleared, is passed over even
  though the watch would confirm its deletion.
\<close>

theorem resumePod_acts_on_every_reserved_pod_counterexample:
  "SchedulerName (Spec (suspendClone exampleV1 podA)) = DebtSchedulerName exampleV1 \<and>
   OwnerReferences (suspendClone exampleV1 podA) = [] \<and>
   Namespace (suspendClone exampleV1 podA) = ''ns-1'' \<and>
   delivers (suspendClone exampleV1 podA) (Ev (deletionOf podA) Closed) \<and>
   resumePod exampleV1 ''ns-1''
     ((cluster1 ''Resume'' [] [Ev (deletionOf podA) Closed])\<lparr>pods := [suspendClone exampleV1 podA]\<rparr>) =
     (ReturnNil,
      (cluster1 ''Resume'' [] [Ev (deletionOf podA) Closed])\<lparr>pods := [suspendClone exampleV1 podA],
        calls := [ListPods ''ns-1'']\<rparr>)"
  by (simp add: eval_defs)

subsection \<open>The clone submitted to create\<close>

lemma follows_none: "\<forall>p. CreatePod p \<notin> set cs \<Longrightarrow> follows f S cs"
  by (auto simp: follows_def)

lemma follows_mono: "follows f S cs \<Longrightarrow> S \<subseteq> T \<Longrightarrow> follows f T cs"
  unfolding follows_def by blast

lemma follows_append:
  assumes "follows f S xs" and "follows f S ys"
  shows "follows f S (xs @ ys)"
  unfolding follows_def
proof (intro allI impI)
  fix pre p post
  assume "xs @ ys = pre @ CreatePod p # post"
  then consider (l) us where "xs = pre @ us" "us @ ys = CreatePod p # post"
    | (r) us where "xs @ us = pre" "ys = us @ CreatePod p # post"
    by (auto simp: append_eq_append_conv2)
  then show "\<exists>pre' old evs. pre = pre' @ DeletePod old # map Received evs \<and> old \<in> S \<and> p = f old"
  proof cases
    case l
    show ?thesis
    proof (cases us)
      case Nil
      with l have "ys = [] @ CreatePod p # post" by simp
      with assms(2) show ?thesis unfolding follows_def by blast
    next
      case (Cons u us')
      with l have "xs = pre @ CreatePod p # us'" by simp
      with assms(1) show ?thesis unfolding follows_def by blast
    qed
  next
    case r
    from assms(2) r(2) obtain pre' old evs where
      "us = pre' @ DeletePod old # map Received evs" "old \<in> S" "p = f old"
      unfolding follows_def by blast
    with r(1) have "pre = (xs @ pre') @ DeletePod old # map Received evs" by simp
    with \<open>old \<in> S\<close> \<open>p = f old\<close> show ?thesis by blast
  qed
qed

lemma tied_refl: "tied f S w w"
  by (simp add: tied_def follows_none)

lemma tied_trans: "tied f S w w1 \<Longrightarrow> tied f S w1 w2 \<Longrightarrow> tied f S w w2"
  by (auto simp: tied_def intro: follows_append)

lemma tied_mono: "tied f S w w' \<Longrightarrow> S \<subseteq> T \<Longrightarrow> tied f T w w'"
  by (auto simp: tied_def intro: follows_mono)

lemma tied_newCalls: "tied f S w w' \<Longrightarrow> follows f S (newCalls w w')"
  by (auto simp: tied_def newCalls_def)

lemma clientListPods_tied: "clientListPods n w = (r, w') \<Longrightarrow> tied f S w w'"
  by (auto simp: clientListPods_def request_def tied_def follows_none split: list.splits option.splits)

lemma clientDeletePod_tied: "clientDeletePod p w = (r, w') \<Longrightarrow> tied f S w w'"
  using clientDeletePod_calls[of p w r w'] by (auto simp: tied_def follows_none)

lemma recreatePod_tied:
  assumes "recreatePod oldPod newPod w = (r, w')" and "f oldPod = newPod" and "oldPod \<in> S"
  shows "tied f S w w'"
proof -
  have pre: "calls w' = calls w @ newCalls w w'"
    using recreatePod_extends[OF assms(1), of "{oldPod}" "{newPod}"]
    by (auto simp: extends_def newCalls_def)
  have "follows f S (newCalls w w')"
    unfolding follows_def
  proof (intro allI impI)
    fix pre p post
    assume eq: "newCalls w w' = pre @ CreatePod p # post"
    let ?P = "\<lambda>c. case c of CreatePod _ \<Rightarrow> True | _ \<Rightarrow> False"
    have mem: "CreatePod p \<in> set (newCalls w w')" using eq by simp
    from recreatePod_calls[OF assms(1)] consider
        (a) "newCalls w w' = [WatchPods]"
      | (b) evs where "newCalls w w' = WatchPods # DeletePod oldPod # map Received evs"
      | (c) evs ev post' where
          "newCalls w w' = (WatchPods # DeletePod oldPod # map Received evs @ [Received ev]) @ CreatePod newPod # post'"
          "post' = [] \<or> post' = [StopWatch]"
      by auto
    then show "\<exists>pre' old evs. pre = pre' @ DeletePod old # map Received evs \<and> old \<in> S \<and> p = f old"
    proof cases
      case a
      with mem show ?thesis by simp
    next
      case b
      with mem show ?thesis by auto
    next
      case c
      have "pre @ CreatePod p # post =
         (WatchPods # DeletePod oldPod # map Received evs @ [Received ev]) @ CreatePod newPod # post'"
        using eq c(1) by simp
      from split_unique[OF this, of ?P] c(2)
      have "pre = [WatchPods] @ DeletePod oldPod # map Received (evs @ [ev])" and "p = newPod"
        by auto
      with assms(2,3) show ?thesis by blast
    qed
  qed
  with pre show ?thesis unfolding tied_def by blast
qed

lemma suspendOrphanPod_items_tied:
  "suspendOrphanPod_items c items w = (r, w') \<Longrightarrow> tied (suspendClone c) (set items) w w'"
proof (induction items arbitrary: w)
  case Nil
  then show ?case by (simp add: tied_refl)
next
  case (Cons pod items)
  have up: "\<And>u v. tied (suspendClone c) (set items) u v \<Longrightarrow> tied (suspendClone c) (set (pod # items)) u v"
    by (erule tied_mono) auto
  show ?case
  proof (cases "SchedulerName (Spec pod) = DebtSchedulerName c \<or> length (OwnerReferences pod) > 0")
    case True
    with Cons.prems have "suspendOrphanPod_items c items w = (r, w')" by simp
    from up[OF Cons.IH[OF this]] show ?thesis .
  next
    case False
    obtain r1 w1 where rc: "recreatePod pod (suspendClone c pod) w = (r1, w1)" by force
    have e1: "tied (suspendClone c) (set (pod # items)) w w1"
      by (rule recreatePod_tied[OF rc]) simp_all
    show ?thesis
    proof (cases r1)
      case ReturnNil
      with Cons.prems False rc have "suspendOrphanPod_items c items w1 = (r, w')" by simp
      from up[OF Cons.IH[OF this]] e1 show ?thesis by (rule tied_trans[rotated])
    next
      case (ReturnErr e)
      with Cons.prems False rc have "w' = w1" by auto
      with e1 show ?thesis by simp
    next
      case Blocks
      with Cons.prems False rc have "w' = w1" by auto
      with e1 show ?thesis by simp
    qed
  qed
qed

lemma resumePod_items_tied:
  "resumePod_items c items w = (r, w') \<Longrightarrow> tied (resumeClone c) (set items) w w'"
proof (induction items arbitrary: w)
  case Nil
  then show ?case by (simp add: tied_refl)
next
  case (Cons pod items)
  have up: "\<And>u v. tied (resumeClone c) (set items) u v \<Longrightarrow> tied (resumeClone c) (set (pod # items)) u v"
    by (erule tied_mono) auto
  consider (skip) "Phase (Status pod) \<noteq> PodPhaseSuspended c \<or> SchedulerName (Spec pod) \<noteq> DebtSchedulerName c"
    | (owned) "\<not> (Phase (Status pod) \<noteq> PodPhaseSuspended c \<or> SchedulerName (Spec pod) \<noteq> DebtSchedulerName c)"
        "length (OwnerReferences pod) > 0"
    | (orphan) "\<not> (Phase (Status pod) \<noteq> PodPhaseSuspended c \<or> SchedulerName (Spec pod) \<noteq> DebtSchedulerName c)"
        "\<not> length (OwnerReferences pod) > 0"
    by blast
  then show ?case
  proof cases
    case skip
    with Cons.prems have "resumePod_items c items w = (r, w')" by simp
    from up[OF Cons.IH[OF this]] show ?thesis .
  next
    case owned
    obtain b w1 where d: "clientDeletePod pod w = (b, w1)" by force
    have e1: "tied (resumeClone c) (set (pod # items)) w w1"
      by (rule clientDeletePod_tied[OF d])
    show ?thesis
    proof (cases b)
      case None
      with Cons.prems owned d have "resumePod_items c items w1 = (r, w')" by simp
      from up[OF Cons.IH[OF this]] e1 show ?thesis by (rule tied_trans[rotated])
    next
      case (Some e)
      with Cons.prems owned d have "w' = w1" by auto
      with e1 show ?thesis by simp
    qed
  next
    case orphan
    obtain r1 w1 where rc: "recreatePod pod (resumeClone c pod) w = (r1, w1)" by force
    have e1: "tied (resumeClone c) (set (pod # items)) w w1"
      by (rule recreatePod_tied[OF rc]) simp_all
    show ?thesis
    proof (cases r1)
      case ReturnNil
      with Cons.prems orphan rc have "resumePod_items c items w1 = (r, w')" by simp
      from up[OF Cons.IH[OF this]] e1 show ?thesis by (rule tied_trans[rotated])
    next
      case (ReturnErr e)
      with Cons.prems orphan rc have "w' = w1" by auto
      with e1 show ?thesis by simp
    next
      case Blocks
      with Cons.prems orphan rc have "w' = w1" by auto
      with e1 show ?thesis by simp
    qed
  qed
qed

lemma suspendOrphanPod_tied:
  assumes "suspendOrphanPod c n w = (r, w')"
  shows "tied (suspendClone c) {p \<in> set (pods w). Namespace p = n} w w'"
proof -
  obtain a w1 where l: "clientListPods n w = (a, w1)" by force
  note e1 = clientListPods_tied[OF l]
  show ?thesis
  proof (cases a)
    case (Inl e)
    with assms l have "w' = w1" by (simp add: suspendOrphanPod_def)
    with e1 show ?thesis by simp
  next
    case (Inr items)
    with assms l have "suspendOrphanPod_items c items w1 = (r, w')"
      by (simp add: suspendOrphanPod_def)
    from suspendOrphanPod_items_tied[OF this] clientListPods_items[OF l[unfolded Inr]]
    have "tied (suspendClone c) {p \<in> set (pods w). Namespace p = n} w1 w'" by simp
    with e1 show ?thesis by (rule tied_trans)
  qed
qed

lemma resumePod_tied:
  assumes "resumePod c n w = (r, w')"
  shows "tied (resumeClone c) {p \<in> set (pods w). Namespace p = n} w w'"
proof -
  obtain a w1 where l: "clientListPods n w = (a, w1)" by force
  note e1 = clientListPods_tied[OF l]
  show ?thesis
  proof (cases a)
    case (Inl e)
    with assms l have "w' = w1" by (simp add: resumePod_def)
    with e1 show ?thesis by simp
  next
    case (Inr items)
    with assms l have "resumePod_items c items w1 = (r, w')"
      by (simp add: resumePod_def)
    from resumePod_items_tied[OF this] clientListPods_items[OF l[unfolded Inr]]
    have "tied (resumeClone c) {p \<in> set (pods w). Namespace p = n} w1 w'" by simp
    with e1 show ?thesis by (rule tied_trans)
  qed
qed

text \<open>
  Claim C9. The clone built on the suspend path and the one built on the resume path keep
  the name and the namespace of the pod they are built from, have no node assigned, the
  zero status and no resource version; the scheduler name of the first is the reserved
  one, that of the second is the value of the previous-scheduler annotation (empty when
  there is none). In every run of \<open>suspendOrphanPod\<close> and of \<open>resumePod\<close>, whatever it
  returns, each create comes right after the delete of a pod of the namespace and the
  events received for it, and the pod submitted is the clone of that very pod. On a
  platform that serves every request and confirms each deletion, \<open>suspendOrphanPod\<close>
  deletes the unmanaged pods not yet parked and creates their clones, in the same order,
  and \<open>resumePod\<close> creates the clones of the unmanaged parked pods, in order; the
  cluster then holds the clones in place of the pods.
\<close>

theorem recreate_submits_reset_clone:
  "(Name (suspendClone c pod) = Name pod \<and> Namespace (suspendClone c pod) = Namespace pod \<and>
    NodeName (Spec (suspendClone c pod)) = [] \<and> Status (suspendClone c pod) = PodStatus_zero \<and>
    ResourceVersion (suspendClone c pod) = [] \<and>
    SchedulerName (Spec (suspendClone c pod)) = DebtSchedulerName c) \<and>
   (Name (resumeClone c pod) = Name pod \<and> Namespace (resumeClone c pod) = Namespace pod \<and>
    NodeName (Spec (resumeClone c pod)) = [] \<and> Status (resumeClone c pod) = PodStatus_zero \<and>
    ResourceVersion (resumeClone c pod) = [] \<and>
    SchedulerName (Spec (resumeClone c pod)) =
      (case lookup (Annotations pod) (PreviousSchedulerName c) of Some s \<Rightarrow> s | None \<Rightarrow> [])) \<and>
   (\<forall>n w r w' pre p post.
      suspendOrphanPod c n w = (r, w') \<and> newCalls w w' = pre @ CreatePod p # post \<longrightarrow>
      (\<exists>pre' old evs. pre = pre' @ DeletePod old # map Received evs \<and>
         old \<in> set (pods w) \<and> Namespace old = n \<and> p = suspendClone c old)) \<and>
   (\<forall>n w r w' pre p post.
      resumePod c n w = (r, w') \<and> newCalls w w' = pre @ CreatePod p # post \<longrightarrow>
      (\<exists>pre' old evs. pre = pre' @ DeletePod old # map Received evs \<and>
         old \<in> set (pods w) \<and> Namespace old = n \<and> p = resumeClone c old)) \<and>
   (\<forall>n w. faults w = [] \<and> distinct (map key (pods w)) \<and>
      confirming (filter (\<lambda>p. Namespace p = n \<and> orphan c p) (pods w)) (feeds w) \<longrightarrow>
      (\<exists>w' cs. suspendOrphanPod c n w = (ReturnNil, w') \<and> calls w' = calls w @ cs \<and>
         deletedPods cs = filter (\<lambda>p. Namespace p = n \<and> orphan c p) (pods w) \<and>
         createdPods cs = map (suspendClone c) (filter (\<lambda>p. Namespace p = n \<and> orphan c p) (pods w)) \<and>
         pods w' = filter (\<lambda>p. \<not> (Namespace p = n \<and> orphan c p)) (pods w) @
           map (\<lambda>p. admit w (suspendClone c p)) (filter (\<lambda>p. Namespace p = n \<and> orphan c p) (pods w)))) \<and>
   (\<forall>n w. faults w = [] \<and> distinct (map key (pods w)) \<and>
      confirming (filter (\<lambda>p. Namespace p = n \<and> parked c p \<and> OwnerReferences p = []) (pods w)) (feeds w) \<longrightarrow>
      (\<exists>w' cs. resumePod c n w = (ReturnNil, w') \<and> calls w' = calls w @ cs \<and>
         deletedPods cs = filter (\<lambda>p. Namespace p = n \<and> parked c p) (pods w) \<and>
         createdPods cs = map (resumeClone c)
           (filter (\<lambda>p. Namespace p = n \<and> parked c p \<and> OwnerReferences p = []) (pods w)) \<and>
         pods w' = filter (\<lambda>p. \<not> (Namespace p = n \<and> parked c p)) (pods w) @
           map (\<lambda>p. admit w (resumeClone c p))
             (filter (\<lambda>p. Namespace p = n \<and> parked c p \<and> OwnerReferences p = []) (pods w))))"
proof (intro conjI allI impI)
  fix n w r w' pre p post
  assume a: "suspendOrphanPod c n w = (r, w') \<and> newCalls w w' = pre @ CreatePod p # post"
  from tied_newCalls[OF suspendOrphanPod_tied] a
  have "follows (suspendClone c) {p \<in> set (pods w). Namespace p = n} (pre @ CreatePod p # post)"
    by metis
  then show "\<exists>pre' old evs. pre = pre' @ DeletePod old # map Received evs \<and>
         old \<in> set (pods w) \<and> Namespace old = n \<and> p = suspendClone c old"
    unfolding follows_def by blast
next
  fix n w r w' pre p post
  assume a: "resumePod c n w = (r, w') \<and> newCalls w w' = pre @ CreatePod p # post"
  from tied_newCalls[OF resumePod_tied] a
  have "follows (resumeClone c) {p \<in> set (pods w). Namespace p = n} (pre @ CreatePod p # post)"
    by metis
  then show "\<exists>pre' old evs. pre = pre' @ DeletePod old # map Received evs \<and>
         old \<in> set (pods w) \<and> Namespace old = n \<and> p = resumeClone c old"
    unfolding follows_def by blast
next
  fix n and w :: World
  assume a: "faults w = [] \<and> distinct (map key (pods w)) \<and>
      confirming (filter (\<lambda>p. Namespace p = n \<and> orphan c p) (pods w)) (feeds w)"
  let ?sel = "filter (\<lambda>p. Namespace p = n \<and> orphan c p) (pods w)"
  let ?P = "filter (\<lambda>p. \<not> (Namespace p = n \<and> orphan c p)) (pods w) @
           map (\<lambda>p. admit w (suspendClone c p)) ?sel"
  from a suspendOrphanPod_served[of w n c] obtain cs where
    r: "suspendOrphanPod c n w =
      (ReturnNil, w\<lparr>pods := ?P, feeds := drop (length ?sel) (feeds w), calls := calls w @ cs\<rparr>)"
    and cd: "createdPods cs = map (suspendClone c) ?sel" "deletedPods cs = ?sel"
    by blast
  let ?w' = "w\<lparr>pods := ?P, feeds := drop (length ?sel) (feeds w), calls := calls w @ cs\<rparr>"
  have "calls ?w' = calls w @ cs" "pods ?w' = ?P" by simp_all
  with r cd show "\<exists>w' cs. suspendOrphanPod c n w = (ReturnNil, w') \<and> calls w' = calls w @ cs \<and>
         deletedPods cs = ?sel \<and> createdPods cs = map (suspendClone c) ?sel \<and> pods w' = ?P"
    by blast
next
  fix n and w :: World
  assume a: "faults w = [] \<and> distinct (map key (pods w)) \<and>
      confirming (filter (\<lambda>p. Namespace p = n \<and> parked c p \<and> OwnerReferences p = []) (pods w)) (feeds w)"
  let ?sel = "filter (\<lambda>p. Namespace p = n \<and> parked c p \<and> OwnerReferences p = []) (pods w)"
  let ?P = "filter (\<lambda>p. \<not> (Namespace p = n \<and> parked c p)) (pods w) @
           map (\<lambda>p. admit w (resumeClone c p)) ?sel"
  from a resumePod_served[of w n c] obtain cs where
    r: "resumePod c n w =
      (ReturnNil, w\<lparr>pods := ?P, feeds := drop (length ?sel) (feeds w), calls := calls w @ cs\<rparr>)"
    and cd: "createdPods cs = map (resumeClone c) ?sel"
       "deletedPods cs = filter (\<lambda>p. Namespace p = n \<and> parked c p) (pods w)"
    by blast
  let ?w' = "w\<lparr>pods := ?P, feeds := drop (length ?sel) (feeds w), calls := calls w @ cs\<rparr>"
  have "calls ?w' = calls w @ cs" "pods ?w' = ?P" by simp_all
  with r cd show "\<exists>w' cs. resumePod c n w = (ReturnNil, w') \<and> calls w' = calls w @ cs \<and>
         deletedPods cs = filter (\<lambda>p. Namespace p = n \<and> parked c p) (pods w) \<and>
         createdPods cs = map (resumeClone c) ?sel \<and> pods w' = ?P"
    by blast
qed (simp_all add: suspendClone_fields resumeClone_fields)

theorem recreate_submits_reset_clone_witness:
  "newCalls (cluster1 ''Suspend'' ''Suspended'' [Ev (deletionOf podA) Closed])
     (snd (suspendOrphanPod exampleV1 ''ns-1'' (cluster1 ''Suspend'' ''Suspended'' [Ev (deletionOf podA) Closed]))) =
     [ListPods ''ns-1'', WatchPods, DeletePod podA, Received (deletionOf podA)] @
     CreatePod (suspendClone exampleV1 podA) # [StopWatch] \<and>
   Name podA = ''a'' \<and> Namespace podA = ''ns-1'' \<and> NodeName (Spec podA) = ''node-x'' \<and>
   suspendClone exampleV1 podA =
     \<lparr>Name = ''a'', Namespace = ''ns-1'', ResourceVersion = [], OwnerReferences = [],
      Annotations = Some [''previous-scheduler'' \<mapsto> ''default''],
      Spec = \<lparr>NodeName = [], SchedulerName = ''debt-scheduler''\<rparr>, Status = PodStatus_zero\<rparr> \<and>
   newCalls
     ((cluster1 ''Resume'' ''Suspended'' [Ev (deletionOf podA) Closed])\<lparr>pods :=
        [podB, admit (cluster1 ''Resume'' ''Suspended'' []) (suspendClone exampleV1 podA)]\<rparr>)
     (snd (resumePod exampleV1 ''ns-1''
       ((cluster1 ''Resume'' ''Suspended'' [Ev (deletionOf podA) Closed])\<lparr>pods :=
          [podB, admit (cluster1 ''Resume'' ''Suspended'' []) (suspendClone exampleV1 podA)]\<rparr>))) =
     [ListPods ''ns-1'', WatchPods,
      DeletePod (admit (cluster1 ''Resume'' ''Suspended'' []) (suspendClone exampleV1 podA)),
      Received (deletionOf podA)] @
     CreatePod (resumeClone exampleV1 (admit (cluster1 ''Resume'' ''Suspended'' []) (suspendClone exampleV1 podA)))
       # [StopWatch] \<and>
   resumeClone exampleV1 (admit (cluster1 ''Resume'' ''Suspended'' []) (suspendClone exampleV1 podA)) =
     \<lparr>Name = ''a'', Namespace = ''ns-1'', ResourceVersion = [], OwnerReferences = [],
      Annotations = Some Map.empty,
      Spec = \<lparr>NodeName = [], SchedulerName = ''default''\<rparr>, Status = PodStatus_zero\<rparr> \<and>
   (\<exists>pre' old evs.
      [ListPods ''ns-1'', WatchPods,
       DeletePod (admit (cluster1 ''Resume'' ''Suspended'' []) (suspendClone exampleV1 podA)),
       Received (deletionOf podA)] = pre' @ DeletePod old # map Received evs \<and>
      resumeClone exampleV1 (admit (cluster1 ''Resume'' ''Suspended'' []) (suspendClone exampleV1 podA)) =
        resumeClone exampleV1 old) \<and>
   (\<exists>pre' old evs.
      [ListPods ''ns-1'', WatchPods, DeletePod podA, Received (deletionOf podA)] =
        pre' @ DeletePod old # map Received evs \<and>
      suspendClone exampleV1 podA = suspendClone exampleV1 old)"
proof -
  let ?ws = "cluster1 ''Suspend'' ''Suspended'' [Ev (deletionOf podA) Closed]"
  let ?pA = "admit (cluster1 ''Resume'' ''Suspended'' []) (suspendClone exampleV1 podA)"
  let ?wr = "(cluster1 ''Resume'' ''Suspended'' [Ev (deletionOf podA) Closed])\<lparr>pods := [podB, ?pA]\<rparr>"
  have runs: "suspendOrphanPod exampleV1 ''ns-1'' ?ws =
      (fst (suspendOrphanPod exampleV1 ''ns-1'' ?ws), snd (suspendOrphanPod exampleV1 ''ns-1'' ?ws))"
    and runr: "resumePod exampleV1 ''ns-1'' ?wr =
      (fst (resumePod exampleV1 ''ns-1'' ?wr), snd (resumePod exampleV1 ''ns-1'' ?wr))"
    by simp_all
  have cs: "newCalls ?ws (snd (suspendOrphanPod exampleV1 ''ns-1'' ?ws)) =
     [ListPods ''ns-1'', WatchPods, DeletePod podA, Received (deletionOf podA)] @
     CreatePod (suspendClone exampleV1 podA) # [StopWatch]"
    by (simp add: eval_defs)
  have cr: "newCalls ?wr (snd (resumePod exampleV1 ''ns-1'' ?wr)) =
     [ListPods ''ns-1'', WatchPods, DeletePod ?pA, Received (deletionOf podA)] @
     CreatePod (resumeClone exampleV1 ?pA) # [StopWatch]"
    by (simp add: eval_defs)
  have f1: "Name podA = ''a''" "Namespace podA = ''ns-1''" "NodeName (Spec podA) = ''node-x''"
    by (simp_all add: podA_def)
  have f2: "suspendClone exampleV1 podA =
     \<lparr>Name = ''a'', Namespace = ''ns-1'', ResourceVersion = [], OwnerReferences = [],
      Annotations = Some [''previous-scheduler'' \<mapsto> ''default''],
      Spec = \<lparr>NodeName = [], SchedulerName = ''debt-scheduler''\<rparr>, Status = PodStatus_zero\<rparr>"
    by (simp add: suspendClone_def podA_def exampleV1_def Let_def assign_def)
  have f3: "resumeClone exampleV1 ?pA =
     \<lparr>Name = ''a'', Namespace = ''ns-1'', ResourceVersion = [], OwnerReferences = [],
      Annotations = Some Map.empty,
      Spec = \<lparr>NodeName = [], SchedulerName = ''default''\<rparr>, Status = PodStatus_zero\<rparr>"
    by (simp add: suspendClone_def resumeClone_def admit_def podA_def exampleV1_def Let_def
        lookup_def delete_def assign_def)
  note T = recreate_submits_reset_clone[of exampleV1 podA]
  from T[THEN conjunct2, THEN conjunct2, THEN conjunct1, rule_format, OF conjI[OF runs cs]]
  have t1: "\<exists>pre' old evs.
      [ListPods ''ns-1'', WatchPods, DeletePod podA, Received (deletionOf podA)] =
        pre' @ DeletePod old # map Received evs \<and>
      suspendClone exampleV1 podA = suspendClone exampleV1 old"
    by blast
  from T[THEN conjunct2, THEN conjunct2, THEN conjunct2, THEN conjunct1, rule_format,
      OF conjI[OF runr cr]]
  have t2: "\<exists>pre' old evs.
      [ListPods ''ns-1'', WatchPods, DeletePod ?pA, Received (deletionOf podA)] =
        pre' @ DeletePod old # map Received evs \<and>
      resumeClone exampleV1 ?pA = resumeClone exampleV1 old"
    by blast
  show ?thesis
    apply (intro conjI)
    apply (rule cs)
    apply (rule f1(1))
    apply (rule f1(2))
    apply (rule f1(3))
    apply (rule f2)
    apply (rule cr)
    apply (rule f3)
    apply (rule t2)
    apply (rule t1)
    done
qed

subsection \<open>Suspend, then resume\<close>














end
